theory Spec2Isabelle
  imports Complex_Main
begin

section \<open>Values, paths and failures\<close>

text \<open>
  The engine computes with C++ doubles. The embedding reads a double as a real number:
  rounding, overflow to infinity and NaN are outside the model; only the constructor of
  the time grid, whose points are sums of doubles, is modelled with the rounding as well.
  Where an operation of the source has no real-number result (a floating-point division by
  zero, a square root of a negative number, a power outside its domain) or no defined
  behaviour at all (an access to an element a vector does not have, a signed overflow of an
  int), the model returns that failure as a value and stops there; the C++ itself carries
  a non-finite double on, or is undefined.
\<close>

datatype error =
    OutOfBounds
  | DivisionByZero
  | DomainError
  | SignedOverflow
  | LengthError

type_synonym Path = "real list"

text \<open>\<open>path.back()\<close>: the last element; undefined on an empty vector.\<close>

definition vec_back :: "'a list \<Rightarrow> error + 'a" where
  "vec_back path = (if path = [] then Inl OutOfBounds else Inr (last path))"

text \<open>\<open>v[i]\<close>: undefined when \<open>i\<close> is not below \<open>v.size()\<close>.\<close>

definition vec_at :: "'a list \<Rightarrow> nat \<Rightarrow> error + 'a" where
  "vec_at v i = (if i < length v then Inr (v ! i) else Inl OutOfBounds)"

text \<open>A division of doubles; with divisor 0 the double is infinite or NaN.\<close>

definition fdiv :: "real \<Rightarrow> real \<Rightarrow> error + real" where
  "fdiv a b = (if b = 0 then Inl DivisionByZero else Inr (a / b))"

text \<open>\<open>++n\<close> on a 32-bit int.\<close>

definition incr :: "int \<Rightarrow> error + int" where
  "incr n = (if n = 2147483647 then Inl SignedOverflow else Inr (n + 1))"

text \<open>\<open>std::sqrt\<close>: NaN below 0.\<close>

definition std_sqrt :: "real \<Rightarrow> error + real" where
  "std_sqrt a = (if a < 0 then Inl DomainError else Inr (sqrt a))"

text \<open>
  \<open>std::pow(a, y)\<close>: 1 for exponent 0 whatever the base; the real power for a positive
  base; for base 0, 0 with a positive exponent and a pole with a negative one; for a negative
  base, the integer power when the exponent is an integer and NaN otherwise.
\<close>

definition std_pow :: "real \<Rightarrow> real \<Rightarrow> error + real" where
  "std_pow a y =
     (if y = 0 then Inr 1
      else if 0 < a then Inr (a powr y)
      else if a = 0 then (if 0 < y then Inr 0 else Inl DomainError)
      else if y = of_int \<lfloor>y\<rfloor> then Inr (a powi \<lfloor>y\<rfloor>)
      else Inl DomainError)"

section \<open>The stochastic models (SDE.hpp)\<close>

text \<open>
  \<open>ISde\<close> holds the initial condition and the expiry; \<open>GBM\<close> and \<open>CEV\<close> derive from
  it. Fields carry the initial of their class where two classes use one name, and
  \<open>exp\<close> is \<open>exp_I\<close>.
\<close>

record ISde =
  ic :: real
  exp_I :: real

record GBM = ISde +
  mu_G :: real
  vol_G :: real
  div_G :: real

definition GBM :: "real \<Rightarrow> real \<Rightarrow> real \<Rightarrow> real \<Rightarrow> real \<Rightarrow> GBM" where
  "GBM driftCoefficient diffusionCoefficient dividendYield initialCondition expiry =
     \<lparr>ic = initialCondition, exp_I = expiry,
      mu_G = driftCoefficient, vol_G = diffusionCoefficient, div_G = dividendYield\<rparr>"

definition GBM_Drift :: "GBM \<Rightarrow> real \<Rightarrow> real \<Rightarrow> real" where
  "GBM_Drift g xx t = (mu_G g - div_G g) * xx"

definition GBM_Diffusion :: "GBM \<Rightarrow> real \<Rightarrow> real \<Rightarrow> real" where
  "GBM_Diffusion g xx t = vol_G g * xx"

definition GBM_DiffusionDerivative :: "GBM \<Rightarrow> real \<Rightarrow> real \<Rightarrow> real" where
  "GBM_DiffusionDerivative g xx t = vol_G g"

definition GBM_DriftCorrected :: "GBM \<Rightarrow> real \<Rightarrow> real \<Rightarrow> real \<Rightarrow> real" where
  "GBM_DriftCorrected g xx t B =
     GBM_Drift g xx t - B * GBM_Diffusion g xx t * GBM_DiffusionDerivative g xx t"

record CEV = ISde +
  mu_C :: real
  vol_C :: real
  d_C :: real
  b_C :: real

text \<open>
  The constructor stores the drift, the dividend and the exponent, sets the initial
  condition and the expiry, and then rescales the diffusion coefficient:
  \<open>vol = diffusionCoefficient * std::pow(InitialCondition(), 1.0 - b)\<close>.
\<close>

definition CEV :: "real \<Rightarrow> real \<Rightarrow> real \<Rightarrow> real \<Rightarrow> real \<Rightarrow> real \<Rightarrow> error + CEV" where
  "CEV driftCoefficient diffusionCoefficient dividendYield initialCondition expiry beta =
     (case std_pow initialCondition (1 - beta) of
        Inl e \<Rightarrow> Inl e
      | Inr p \<Rightarrow>
          Inr \<lparr>ic = initialCondition, exp_I = expiry,
               mu_C = driftCoefficient, vol_C = diffusionCoefficient * p,
               d_C = dividendYield, b_C = beta\<rparr>)"

definition CEV_Drift :: "CEV \<Rightarrow> real \<Rightarrow> real \<Rightarrow> real" where
  "CEV_Drift c xx t = (mu_C c - d_C c) * xx"

definition CEV_Diffusion :: "CEV \<Rightarrow> real \<Rightarrow> real \<Rightarrow> error + real" where
  "CEV_Diffusion c xx t =
     (case std_pow xx (b_C c) of Inl e \<Rightarrow> Inl e | Inr p \<Rightarrow> Inr (vol_C c * p))"

definition CEV_DiffusionDerivative :: "CEV \<Rightarrow> real \<Rightarrow> real \<Rightarrow> error + real" where
  "CEV_DiffusionDerivative c xx t =
     (if 1 < b_C c then
        (case std_pow xx (b_C c - 1) of
           Inl e \<Rightarrow> Inl e
         | Inr p \<Rightarrow> Inr (vol_C c * b_C c * p))
      else
        (case std_pow xx (1 - b_C c) of
           Inl e \<Rightarrow> Inl e
         | Inr p \<Rightarrow> fdiv (vol_C c * b_C c) p))"

text \<open>
  A \<open>std::shared_ptr<ISde>\<close> points to an object of one of the two derived classes; the
  virtual calls dispatch on it.
\<close>

datatype Sde = GBM_obj GBM | CEV_obj CEV

fun Drift :: "Sde \<Rightarrow> real \<Rightarrow> real \<Rightarrow> error + real" where
  "Drift (GBM_obj g) xx t = Inr (GBM_Drift g xx t)"
| "Drift (CEV_obj c) xx t = Inr (CEV_Drift c xx t)"

fun Diffusion :: "Sde \<Rightarrow> real \<Rightarrow> real \<Rightarrow> error + real" where
  "Diffusion (GBM_obj g) xx t = Inr (GBM_Diffusion g xx t)"
| "Diffusion (CEV_obj c) xx t = CEV_Diffusion c xx t"

fun DiffusionDerivative :: "Sde \<Rightarrow> real \<Rightarrow> real \<Rightarrow> error + real" where
  "DiffusionDerivative (GBM_obj g) xx t = Inr (GBM_DiffusionDerivative g xx t)"
| "DiffusionDerivative (CEV_obj c) xx t = CEV_DiffusionDerivative c xx t"

fun InitialCondition :: "Sde \<Rightarrow> real" where
  "InitialCondition (GBM_obj g) = ic g"
| "InitialCondition (CEV_obj c) = ic c"

fun Expiry :: "Sde \<Rightarrow> real" where
  "Expiry (GBM_obj g) = exp_I g"
| "Expiry (CEV_obj c) = exp_I c"

section \<open>The pricers (Pricers.hpp)\<close>

text \<open>
  \<open>Pricer\<close> holds the payoff and the discounter; each pricer adds its running sum, its
  path counter and its price. The console output of \<open>PostProcess\<close> is not modelled.
\<close>

record Pricer =
  m_payoff :: "real \<Rightarrow> real"
  m_discounter :: "unit \<Rightarrow> real"

definition DiscountFactor :: "'a Pricer_scheme \<Rightarrow> real" where
  "DiscountFactor s = m_discounter s ()"

text \<open>Feeding a sequence of paths to a pricer, one \<open>ProcessPath\<close> call per path.\<close>

fun feed :: "('s \<Rightarrow> Path \<Rightarrow> error + 's) \<Rightarrow> 's \<Rightarrow> Path list \<Rightarrow> error + 's" where
  "feed f s [] = Inr s"
| "feed f s (p # ps) = (case f s p of Inl e \<Rightarrow> Inl e | Inr s' \<Rightarrow> feed f s' ps)"

subsection \<open>EuropeanPricer\<close>

record EuropeanPricer = Pricer +
  sum_E :: real
  NSim_E :: int
  price_E :: real

definition EuropeanPricer :: "(real \<Rightarrow> real) \<Rightarrow> (unit \<Rightarrow> real) \<Rightarrow> EuropeanPricer" where
  "EuropeanPricer payoff discounter =
     \<lparr>m_payoff = payoff, m_discounter = discounter, sum_E = 0, NSim_E = 0, price_E = 0\<rparr>"

definition EuropeanPricer_ProcessPath :: "EuropeanPricer \<Rightarrow> Path \<Rightarrow> error + EuropeanPricer" where
  "EuropeanPricer_ProcessPath s path =
     (case vec_back path of
        Inl e \<Rightarrow> Inl e
      | Inr v \<Rightarrow>
          (case incr (NSim_E s) of
             Inl e \<Rightarrow> Inl e
           | Inr n \<Rightarrow> Inr (s\<lparr>sum_E := sum_E s + m_payoff s v, NSim_E := n\<rparr>)))"

definition EuropeanPricer_PostProcess :: "EuropeanPricer \<Rightarrow> error + EuropeanPricer" where
  "EuropeanPricer_PostProcess s =
     (case fdiv (DiscountFactor s * sum_E s) (real_of_int (NSim_E s)) of
        Inl e \<Rightarrow> Inl e
      | Inr v \<Rightarrow> Inr (s\<lparr>price_E := v\<rparr>))"

definition EuropeanPricer_Price :: "EuropeanPricer \<Rightarrow> real" where
  "EuropeanPricer_Price s = price_E s"

subsection \<open>AsianPricer\<close>

record AsianPricer = Pricer +
  sum_A :: real
  NSim_A :: int
  price_A :: real
  avg_A :: real

definition Average :: "Path \<Rightarrow> error + real" where
  "Average path = fdiv (foldl (+) 0 path) (real (length path))"

definition AsianPricer :: "(real \<Rightarrow> real) \<Rightarrow> (unit \<Rightarrow> real) \<Rightarrow> AsianPricer" where
  "AsianPricer payoff discounter =
     \<lparr>m_payoff = payoff, m_discounter = discounter,
      sum_A = 0, NSim_A = 0, price_A = 0, avg_A = 0\<rparr>"

definition AsianPricer_ProcessPath :: "AsianPricer \<Rightarrow> Path \<Rightarrow> error + AsianPricer" where
  "AsianPricer_ProcessPath s path =
     (case Average path of
        Inl e \<Rightarrow> Inl e
      | Inr avg \<Rightarrow>
          (case incr (NSim_A s) of
             Inl e \<Rightarrow> Inl e
           | Inr n \<Rightarrow> Inr (s\<lparr>sum_A := sum_A s + m_payoff s avg, NSim_A := n\<rparr>)))"

definition AsianPricer_PostProcess :: "AsianPricer \<Rightarrow> error + AsianPricer" where
  "AsianPricer_PostProcess s =
     (case fdiv (DiscountFactor s * sum_A s) (real_of_int (NSim_A s)) of
        Inl e \<Rightarrow> Inl e
      | Inr v \<Rightarrow> Inr (s\<lparr>price_A := v\<rparr>))"

definition AsianPricer_Price :: "AsianPricer \<Rightarrow> real" where
  "AsianPricer_Price s = price_A s"

subsection \<open>BarrierPricer\<close>

record BarrierPricer = Pricer +
  price_B :: real
  sum_B :: real
  sum2_B :: real
  NSim_B :: int

definition BarrierPricer :: "(real \<Rightarrow> real) \<Rightarrow> (unit \<Rightarrow> real) \<Rightarrow> BarrierPricer" where
  "BarrierPricer payoff discounter =
     \<lparr>m_payoff = payoff, m_discounter = discounter,
      price_B = 0, sum_B = 0, sum2_B = 0, NSim_B = 0\<rparr>"

text \<open>The range-for with its \<open>break\<close>: is some entry at or above the level?\<close>

fun knockedOut :: "real \<Rightarrow> Path \<Rightarrow> bool" where
  "knockedOut L [] = False"
| "knockedOut L (p # ps) = (if p \<ge> L then True else knockedOut L ps)"

definition BarrierPricer_ProcessPath :: "BarrierPricer \<Rightarrow> Path \<Rightarrow> error + BarrierPricer" where
  "BarrierPricer_ProcessPath s path =
     (let L = 170; rebate = 0 in
      (case (if \<not> knockedOut L path
             then (case vec_back path of
                     Inl e \<Rightarrow> Inl e
                   | Inr v \<Rightarrow> Inr (sum_B s + m_payoff s v))
             else Inr (sum_B s + rebate)) of
         Inl e \<Rightarrow> Inl e
       | Inr sm \<Rightarrow>
           (case incr (NSim_B s) of
              Inl e \<Rightarrow> Inl e
            | Inr n \<Rightarrow> Inr (s\<lparr>sum_B := sm, NSim_B := n\<rparr>))))"

definition BarrierPricer_PostProcess :: "BarrierPricer \<Rightarrow> error + BarrierPricer" where
  "BarrierPricer_PostProcess s =
     (case fdiv (DiscountFactor s * sum_B s) (real_of_int (NSim_B s)) of
        Inl e \<Rightarrow> Inl e
      | Inr v \<Rightarrow> Inr (s\<lparr>price_B := v\<rparr>))"

definition BarrierPricer_Price :: "BarrierPricer \<Rightarrow> real" where
  "BarrierPricer_Price s = price_B s"

subsection \<open>BrownianBridgePricer\<close>

text \<open>
  The pricer owns a generator: the engine state \<open>rng\<close>, seeded at construction from
  \<open>std::random_device\<close>, and the distribution \<open>dist\<close>, which draws one number and
  advances the engine. The seeded engine and the drawing function are parameters of the
  constructor here. The model is held through a \<open>std::shared_ptr<GBM>\<close>.
\<close>

record 'g BrownianBridgePricer = Pricer +
  price_BB :: real
  sum_BB :: real
  sum2_BB :: real
  NSim_BB :: int
  dt_BB :: real
  sde_BB :: GBM
  counter_BB :: int
  rng_BB :: 'g
  dist_BB :: "'g \<Rightarrow> real \<times> 'g"

definition BrownianBridgePricer ::
  "(real \<Rightarrow> real) \<Rightarrow> (unit \<Rightarrow> real) \<Rightarrow> GBM \<Rightarrow> real \<Rightarrow> 'g \<Rightarrow> ('g \<Rightarrow> real \<times> 'g)
     \<Rightarrow> 'g BrownianBridgePricer" where
  "BrownianBridgePricer payoff discounter isde step seeded uniform01 =
     \<lparr>m_payoff = payoff, m_discounter = discounter,
      price_BB = 0, sum_BB = 0, sum2_BB = 0, NSim_BB = 0, dt_BB = step,
      sde_BB = isde, counter_BB = 0, rng_BB = seeded, dist_BB = uniform01\<rparr>"

text \<open>
  The loop \<open>for (size_t n = 1; n < path.size(); ++n)\<close> with its \<open>break\<close>, entered at
  \<open>n = 1\<close>. It returns whether a crossing was found, the engine state and the counter.
\<close>

function bridge_scan ::
  "GBM \<Rightarrow> real \<Rightarrow> ('g \<Rightarrow> real \<times> 'g) \<Rightarrow> real \<Rightarrow> Path \<Rightarrow> nat \<Rightarrow> 'g \<Rightarrow> int
     \<Rightarrow> error + (bool \<times> 'g \<times> int)" where
  "bridge_scan sde dt uniform L path n g counter =
     (if n < length path then
        (case vec_at path (n - 1) of
           Inl e \<Rightarrow> Inl e
         | Inr earlier \<Rightarrow>
             (case vec_at path n of
                Inl e \<Rightarrow> Inl e
              | Inr later \<Rightarrow>
                  (let tmp = GBM_Diffusion sde earlier (real (n - 1) * dt) in
                   (case fdiv (- 2 * (L - earlier) * (L - later)) (tmp * tmp * dt) of
                      Inl e \<Rightarrow> Inl e
                    | Inr q \<Rightarrow>
                        (let P = exp q; (u, g') = uniform g in
                         (case (if P \<ge> u then incr counter else Inr counter) of
                            Inl e \<Rightarrow> Inl e
                          | Inr counter' \<Rightarrow>
                              if later \<ge> L \<or> P \<ge> u then Inr (True, g', counter')
                              else bridge_scan sde dt uniform L path (n + 1) g' counter'))))))
      else Inr (False, g, counter))"
  by pat_completeness auto
termination
  by (relation "measure (\<lambda>(sde, dt, uniform, L, path, n, g, counter). length path - n)") auto

declare bridge_scan.simps [simp del]

definition BrownianBridgePricer_ProcessPath ::
  "'g BrownianBridgePricer \<Rightarrow> Path \<Rightarrow> error + 'g BrownianBridgePricer" where
  "BrownianBridgePricer_ProcessPath s path =
     (let L = 170; rebate = 0 in
      (case bridge_scan (sde_BB s) (dt_BB s) (dist_BB s) L path 1 (rng_BB s) (counter_BB s) of
         Inl e \<Rightarrow> Inl e
       | Inr (crossed, g, c) \<Rightarrow>
           (case (if crossed then Inr rebate
                  else (case vec_back path of
                          Inl e \<Rightarrow> Inl e
                        | Inr v \<Rightarrow> Inr (m_payoff s v))) of
              Inl e \<Rightarrow> Inl e
            | Inr amount \<Rightarrow>
                (case incr (NSim_BB s) of
                   Inl e \<Rightarrow> Inl e
                 | Inr n \<Rightarrow>
                     Inr (s\<lparr>sum_BB := sum_BB s + amount, NSim_BB := n,
                            counter_BB := c, rng_BB := g\<rparr>)))))"

definition BrownianBridgePricer_PostProcess ::
  "'g BrownianBridgePricer \<Rightarrow> error + 'g BrownianBridgePricer" where
  "BrownianBridgePricer_PostProcess s =
     (case fdiv (DiscountFactor s * sum_BB s) (real_of_int (NSim_BB s)) of
        Inl e \<Rightarrow> Inl e
      | Inr v \<Rightarrow> Inr (s\<lparr>price_BB := v\<rparr>))"

definition BrownianBridgePricer_Price :: "'g BrownianBridgePricer \<Rightarrow> real" where
  "BrownianBridgePricer_Price s = price_BB s"

section \<open>The discretisation schemes (Fdm.hpp)\<close>

text \<open>
  \<open>FdmBase\<close> holds the model, the square root of the step, the number of subdivisions,
  the grid \<open>x\<close> and the step \<open>k\<close>. Its constructor computes \<open>k\<close>, its square root
  and the grid; the constructors of the schemes run it first.
\<close>

record FdmBase =
  sde_F :: Sde
  dtSqrt_F :: real
  NT_F :: int
  x_F :: "real list"
  k_F :: real

text \<open>
  The constructor divides, takes a square root and adds, on doubles. An operation on
  doubles is the operation on the real numbers followed by a rounding; \<open>arith\<close> holds the
  three operations the constructor uses. \<open>exact_arith\<close> has the operations of the real
  numbers themselves, the reading of the doubles in the rest of this development.
  \<open>binary64_arith\<close> rounds each result to the nearest number with a significand of 53
  bits, ties to the even significand, as the doubles do; the exponent is not bounded, so
  overflow and subnormal numbers are not modelled.
\<close>

record arith =
  d_add :: "real \<Rightarrow> real \<Rightarrow> real"
  d_div :: "real \<Rightarrow> real \<Rightarrow> real"
  d_sqrt :: "real \<Rightarrow> real"

definition exact_arith :: arith where
  "exact_arith = \<lparr>d_add = (\<lambda>a b. a + b), d_div = (\<lambda>a b. a / b), d_sqrt = sqrt\<rparr>"

text \<open>The integer nearest to \<open>q\<close>; of two nearest integers the even one.\<close>

definition rne :: "real \<Rightarrow> int" where
  "rne q =
     (let n = \<lfloor>q\<rfloor>; r = q - of_int n
      in if r < 1 / 2 then n else if 1 / 2 < r then n + 1 else if even n then n else n + 1)"

text \<open>
  For \<open>a\<close> with \<open>2^(e + 52) \<le> |a| < 2^(e + 53)\<close> the doubles near \<open>a\<close> are the
  multiples of \<open>2^e\<close>.
\<close>

definition binary64 :: "real \<Rightarrow> real" where
  "binary64 a =
     (if a = 0 then 0
      else (let e = \<lfloor>log 2 \<bar>a\<bar>\<rfloor> - 52 in of_int (rne (a / 2 powi e)) * 2 powi e))"

definition binary64_arith :: arith where
  "binary64_arith =
     \<lparr>d_add = (\<lambda>a b. binary64 (a + b)), d_div = (\<lambda>a b. binary64 (a / b)),
      d_sqrt = (\<lambda>a. binary64 (sqrt a))\<rparr>"

definition fdiv_with :: "arith \<Rightarrow> real \<Rightarrow> real \<Rightarrow> error + real" where
  "fdiv_with A a b = (if b = 0 then Inl DivisionByZero else Inr (d_div A a b))"

definition sqrt_with :: "arith \<Rightarrow> real \<Rightarrow> error + real" where
  "sqrt_with A a = (if a < 0 then Inl DomainError else Inr (d_sqrt A a))"

text \<open>\<open>x.resize(n)\<close> on the empty vector, \<open>n\<close> an int converted to \<open>size_t\<close>.\<close>

definition resize0 :: "int \<Rightarrow> error + real list" where
  "resize0 n = (if n < 0 then Inl LengthError else Inr (replicate (nat n) 0))"

text \<open>\<open>NT + 1\<close> on a 32-bit int.\<close>

definition plus1 :: "int \<Rightarrow> error + int" where
  "plus1 n = (if n = 2147483647 then Inl SignedOverflow else Inr (n + 1))"

text \<open>The loop \<open>for (int n = 1; n < NT + 1; n++) x[n] = x[n - 1] + k\<close>.\<close>

function grid_loop :: "arith \<Rightarrow> real \<Rightarrow> int \<Rightarrow> int \<Rightarrow> real list \<Rightarrow> error + real list" where
  "grid_loop A kk NT1 n xs =
     (if n < NT1 then
        (case vec_at xs (nat (n - 1)) of
           Inl e \<Rightarrow> Inl e
         | Inr v \<Rightarrow>
             if nat n < length xs then grid_loop A kk NT1 (n + 1) (xs[nat n := d_add A v kk])
             else Inl OutOfBounds)
      else Inr xs)"
  by pat_completeness auto
termination
  by (relation "measure (\<lambda>(A, kk, NT1, n, xs). nat (NT1 - n))") auto

declare grid_loop.simps [simp del]

definition FdmBase_with :: "arith \<Rightarrow> Sde \<Rightarrow> int \<Rightarrow> error + FdmBase" where
  "FdmBase_with A stochasticEquation numSubdivisions =
     (case fdiv_with A (Expiry stochasticEquation) (real_of_int numSubdivisions) of
        Inl e \<Rightarrow> Inl e
      | Inr kk \<Rightarrow>
          (case sqrt_with A kk of
             Inl e \<Rightarrow> Inl e
           | Inr s \<Rightarrow>
               (case plus1 numSubdivisions of
                  Inl e \<Rightarrow> Inl e
                | Inr NT1 \<Rightarrow>
                    (case resize0 NT1 of
                       Inl e \<Rightarrow> Inl e
                     | Inr xs \<Rightarrow>
                         if xs = [] then Inl OutOfBounds
                         else
                           (case grid_loop A kk NT1 1 (xs[0 := 0]) of
                              Inl e \<Rightarrow> Inl e
                            | Inr xs' \<Rightarrow>
                                Inr \<lparr>sde_F = stochasticEquation, dtSqrt_F = s,
                                     NT_F = numSubdivisions, x_F = xs', k_F = kk\<rparr>)))))"

text \<open>The constructor with the doubles read as reals.\<close>

definition FdmBase :: "Sde \<Rightarrow> int \<Rightarrow> error + FdmBase" where
  "FdmBase stochasticEquation numSubdivisions =
     FdmBase_with exact_arith stochasticEquation numSubdivisions"

text \<open>The setter \<open>StochasticEquation(ssde)\<close> replaces the model and nothing else.\<close>

definition StochasticEquation_set :: "'a FdmBase_scheme \<Rightarrow> Sde \<Rightarrow> 'a FdmBase_scheme" where
  "StochasticEquation_set f ssde = f\<lparr>sde_F := ssde\<rparr>"

subsection \<open>EulerFdm and MilsteinFdm\<close>

text \<open>
  The constructors of the schemes run the constructor of \<open>FdmBase\<close>; as that one, each
  is given over the operations on doubles and then with the doubles read as reals.
\<close>

definition EulerFdm_with :: "arith \<Rightarrow> Sde \<Rightarrow> int \<Rightarrow> error + FdmBase" where
  "EulerFdm_with A stochasticEquation numSubdivisions =
     FdmBase_with A stochasticEquation numSubdivisions"

definition EulerFdm :: "Sde \<Rightarrow> int \<Rightarrow> error + FdmBase" where
  "EulerFdm stochasticEquation numSubdivisions =
     EulerFdm_with exact_arith stochasticEquation numSubdivisions"

definition EulerFdm_advance :: "'a FdmBase_scheme \<Rightarrow> real \<Rightarrow> real \<Rightarrow> real \<Rightarrow> real \<Rightarrow> error + real" where
  "EulerFdm_advance f xn tn dt normalVar =
     (case Drift (sde_F f) xn tn of
        Inl e \<Rightarrow> Inl e
      | Inr a \<Rightarrow>
          (case Diffusion (sde_F f) xn tn of
             Inl e \<Rightarrow> Inl e
           | Inr b \<Rightarrow> Inr (xn + a * dt + b * dtSqrt_F f * normalVar)))"

definition MilsteinFdm_with :: "arith \<Rightarrow> Sde \<Rightarrow> int \<Rightarrow> error + FdmBase" where
  "MilsteinFdm_with A stochasticEquation numSubdivisions =
     FdmBase_with A stochasticEquation numSubdivisions"

definition MilsteinFdm :: "Sde \<Rightarrow> int \<Rightarrow> error + FdmBase" where
  "MilsteinFdm stochasticEquation numSubdivisions =
     MilsteinFdm_with exact_arith stochasticEquation numSubdivisions"

text \<open>
  The source calls \<open>sde->Diffusion(xn, tn)\<close> twice in the expression of the Milstein
  step; the call has no effect and both calls return one value, \<open>b\<close> below.
\<close>

definition MilsteinFdm_advance :: "'a FdmBase_scheme \<Rightarrow> real \<Rightarrow> real \<Rightarrow> real \<Rightarrow> real \<Rightarrow> error + real" where
  "MilsteinFdm_advance f xn tn dt normalVar =
     (case Drift (sde_F f) xn tn of
        Inl e \<Rightarrow> Inl e
      | Inr a \<Rightarrow>
          (case Diffusion (sde_F f) xn tn of
             Inl e \<Rightarrow> Inl e
           | Inr b \<Rightarrow>
               (case DiffusionDerivative (sde_F f) xn tn of
                  Inl e \<Rightarrow> Inl e
                | Inr b' \<Rightarrow>
                    Inr (xn + a * dt + b * dtSqrt_F f * normalVar
                           + 0.5 * dt * b * b' * (normalVar * normalVar - 1)))))"

subsection \<open>ExactFdm\<close>

record ExactFdm = FdmBase +
  S0_X :: real
  sig_X :: real
  mu_X :: real

definition ExactFdm_with ::
  "arith \<Rightarrow> Sde \<Rightarrow> int \<Rightarrow> real \<Rightarrow> real \<Rightarrow> real \<Rightarrow> error + ExactFdm" where
  "ExactFdm_with A stochasticEquation numSubdivisions S0 vol drift =
     (case FdmBase_with A stochasticEquation numSubdivisions of
        Inl e \<Rightarrow> Inl e
      | Inr f \<Rightarrow>
          Inr \<lparr>sde_F = sde_F f, dtSqrt_F = dtSqrt_F f, NT_F = NT_F f, x_F = x_F f, k_F = k_F f,
               S0_X = S0, sig_X = vol, mu_X = drift\<rparr>)"

definition ExactFdm :: "Sde \<Rightarrow> int \<Rightarrow> real \<Rightarrow> real \<Rightarrow> real \<Rightarrow> error + ExactFdm" where
  "ExactFdm stochasticEquation numSubdivisions S0 vol drift =
     ExactFdm_with exact_arith stochasticEquation numSubdivisions S0 vol drift"

definition ExactFdm_advance :: "ExactFdm \<Rightarrow> real \<Rightarrow> real \<Rightarrow> real \<Rightarrow> real \<Rightarrow> error + real" where
  "ExactFdm_advance f xn tn dt normalVar =
     (let alpha = 0.5 * sig_X f * sig_X f in
      (case std_sqrt (tn + dt) of
         Inl e \<Rightarrow> Inl e
       | Inr r \<Rightarrow> Inr (S0_X f * exp ((mu_X f - alpha) * (tn + dt) + sig_X f * r * normalVar))))"

section \<open>The mediator (MCMediator.hpp)\<close>

text \<open>
  The mediator holds pointers to the model, the scheme and the generator, the number of
  paths and the buffer \<open>res\<close>. It does no arithmetic on the values of a path: it obtains
  them from \<open>InitialCondition\<close> and \<open>advance\<close> and stores and passes them on. The model
  therefore leaves their type \<open>'d\<close> open (the reals, or a type that also has the non-finite
  doubles), and takes the three virtual functions the loop calls as parameters: the model's
  \<open>InitialCondition\<close>, the scheme's \<open>advance\<close>, and the generator's \<open>GenerateRn\<close>, which
  returns a variate and the generator's next state. The signals are modelled by the
  sequence of events emitted; the stopwatch and the console are not modelled.
\<close>

datatype 'd event = Mis int | PathCompleted "'d list" | Finish

record ('s, 'fx, 'g, 'd) MCMediator =
  sde_M :: 's
  fdm_M :: "'fx FdmBase_scheme"
  rng_M :: 'g
  NSim_M :: int
  res_M :: "'d list"

text \<open>\<open>res.resize(n)\<close> on the empty buffer: \<open>n\<close> zeros.\<close>

definition resize_res :: "int \<Rightarrow> error + ('d::zero) list" where
  "resize_res n = (if n < 0 then Inl LengthError else Inr (replicate (nat n) 0))"

definition MCMediator ::
  "'s \<times> 'fx FdmBase_scheme \<times> 'g \<Rightarrow> int \<Rightarrow> error + ('s, 'fx, 'g, 'd::zero) MCMediator" where
  "MCMediator parts numberSimulations =
     (case parts of (sde, fdm, rng) \<Rightarrow>
        (case plus1 (NT_F fdm) of
           Inl e \<Rightarrow> Inl e
         | Inr n \<Rightarrow>
             (case resize_res n of
                Inl e \<Rightarrow> Inl e
              | Inr buffer \<Rightarrow>
                  Inr \<lparr>sde_M = sde, fdm_M = fdm, rng_M = rng,
                       NSim_M = numberSimulations, res_M = buffer\<rparr>)))"

text \<open>
  The inner loop \<open>for (int n = 1; n < res.size(); n++)\<close>, entered at \<open>n = 1\<close> with
  \<open>VOld\<close> the initial condition.
\<close>

function path_loop ::
  "('fx FdmBase_scheme \<Rightarrow> 'd \<Rightarrow> real \<Rightarrow> real \<Rightarrow> real \<Rightarrow> 'd) \<Rightarrow> ('g \<Rightarrow> real \<times> 'g)
     \<Rightarrow> 'fx FdmBase_scheme \<Rightarrow> nat \<Rightarrow> 'd \<Rightarrow> 'd list \<Rightarrow> 'g \<Rightarrow> error + ('d list \<times> 'g)" where
  "path_loop advance GenerateRn fdm n VOld res g =
     (if n < length res then
        (case vec_at (x_F fdm) (n - 1) of
           Inl e \<Rightarrow> Inl e
         | Inr t \<Rightarrow>
             (let (z, g') = GenerateRn g;
                  VNew = advance fdm VOld t (k_F fdm) z
              in path_loop advance GenerateRn fdm (n + 1) VNew (res[n := VNew]) g'))
      else Inr (res, g))"
  by pat_completeness auto
termination
  by (relation "measure (\<lambda>(advance, GenerateRn, fdm, n, VOld, res, g). length res - n)") auto

declare path_loop.simps [simp del]

text \<open>The outer loop \<open>for (int i = 0; i < NSim; ++i)\<close>, with the events emitted so far.\<close>

function sim_loop ::
  "('s \<Rightarrow> 'd) \<Rightarrow> ('fx FdmBase_scheme \<Rightarrow> 'd \<Rightarrow> real \<Rightarrow> real \<Rightarrow> real \<Rightarrow> 'd) \<Rightarrow> ('g \<Rightarrow> real \<times> 'g)
     \<Rightarrow> ('s, 'fx, 'g, 'd) MCMediator \<Rightarrow> int \<Rightarrow> 'd event list
     \<Rightarrow> error + (('s, 'fx, 'g, 'd) MCMediator \<times> 'd event list)" where
  "sim_loop InitialCondition_v advance GenerateRn m i emitted =
     (if i < NSim_M m then
        (let emitted1 = (if i mod 100 = 0 then emitted @ [Mis i] else emitted);
             VOld = InitialCondition_v (sde_M m)
         in if res_M m = [] then Inl OutOfBounds
            else
              (case path_loop advance GenerateRn (fdm_M m) 1 VOld ((res_M m)[0 := VOld]) (rng_M m) of
                 Inl e \<Rightarrow> Inl e
               | Inr (res, g) \<Rightarrow>
                   sim_loop InitialCondition_v advance GenerateRn
                     (m\<lparr>rng_M := g, res_M := res\<rparr>) (i + 1) (emitted1 @ [PathCompleted res])))
      else Inr (m, emitted))"
  by pat_completeness auto
termination
  by (relation "measure (\<lambda>(InitialCondition_v, advance, GenerateRn, m, i, emitted). nat (NSim_M m - i))")
    auto

declare sim_loop.simps [simp del]

definition start ::
  "('s \<Rightarrow> 'd) \<Rightarrow> ('fx FdmBase_scheme \<Rightarrow> 'd \<Rightarrow> real \<Rightarrow> real \<Rightarrow> real \<Rightarrow> 'd) \<Rightarrow> ('g \<Rightarrow> real \<times> 'g)
     \<Rightarrow> ('s, 'fx, 'g, 'd) MCMediator
     \<Rightarrow> error + (('s, 'fx, 'g, 'd) MCMediator \<times> 'd event list)" where
  "start InitialCondition_v advance GenerateRn m =
     (case sim_loop InitialCondition_v advance GenerateRn m 0 [] of
        Inl e \<Rightarrow> Inl e
      | Inr (m', emitted) \<Rightarrow> Inr (m', emitted @ [Finish]))"

section \<open>Notions used in the statements\<close>

text \<open>
  A generator is an engine state and a drawing function. \<open>engine_after draw g j\<close> is the
  state after \<open>j\<close> draws from \<open>g\<close>, and \<open>drawn draw g j\<close> is the number the next draw
  returns then: the draws are numbered from 0.
\<close>

fun engine_after :: "('g \<Rightarrow> real \<times> 'g) \<Rightarrow> 'g \<Rightarrow> nat \<Rightarrow> 'g" where
  "engine_after draw g 0 = g"
| "engine_after draw g (Suc j) = snd (draw (engine_after draw g j))"

definition drawn :: "('g \<Rightarrow> real \<times> 'g) \<Rightarrow> 'g \<Rightarrow> nat \<Rightarrow> real" where
  "drawn draw g j = fst (draw (engine_after draw g j))"

text \<open>The paths carried by the path-completed events of a sequence of events, in order.\<close>

fun paths_of :: "'d event list \<Rightarrow> 'd list list" where
  "paths_of [] = []"
| "paths_of (PathCompleted p # es) = p # paths_of es"
| "paths_of (e # es) = paths_of es"

text \<open>
  The bridge probability of the pair \<open>(path[n - 1], path[n])\<close> for the level \<open>L\<close>, with
  the local volatility the model's diffusion at the earlier point and the earlier time.
\<close>

definition bridge_P :: "GBM \<Rightarrow> real \<Rightarrow> real \<Rightarrow> Path \<Rightarrow> nat \<Rightarrow> real" where
  "bridge_P sde dt L path n =
     exp (- 2 * (L - path ! (n - 1)) * (L - path ! n)
            / ((GBM_Diffusion sde (path ! (n - 1)) (real (n - 1) * dt))\<^sup>2 * dt))"

text \<open>
  Pair \<open>n\<close> of a path counts as a crossing of the level \<open>L\<close> when the later value
  \<open>path[n]\<close> is at or above \<open>L\<close> or the bridge probability of the pair is at least the
  number drawn for it. Pair \<open>n\<close> (from 1) gets draw \<open>n - 1\<close> of the generator that starts
  in state \<open>g\<close>.
\<close>

definition crossing ::
  "GBM \<Rightarrow> real \<Rightarrow> ('g \<Rightarrow> real \<times> 'g) \<Rightarrow> 'g \<Rightarrow> real \<Rightarrow> Path \<Rightarrow> nat \<Rightarrow> bool" where
  "crossing sde dt uniform g L path n \<longleftrightarrow>
     L \<le> path ! n \<or> drawn uniform g (n - 1) \<le> bridge_P sde dt L path n"

text \<open>
  A path \<open>p\<close> of \<open>N\<close> steps generated by a scheme from the initial condition \<open>v0\<close>
  with the variates \<open>z 0\<close>, \<open>z 1\<close>, ... in this order: it has \<open>N + 1\<close> entries, entry 0
  is \<open>v0\<close>, and entry \<open>n\<close> is \<open>advance\<close> of entry \<open>n - 1\<close>, the grid time
  \<open>x[n - 1]\<close>, the step \<open>k\<close> and the variate \<open>z (n - 1)\<close>.
\<close>

definition generated_path ::
  "('fx FdmBase_scheme \<Rightarrow> 'd \<Rightarrow> real \<Rightarrow> real \<Rightarrow> real \<Rightarrow> 'd) \<Rightarrow> 'fx FdmBase_scheme \<Rightarrow> 'd
     \<Rightarrow> (nat \<Rightarrow> real) \<Rightarrow> nat \<Rightarrow> 'd list \<Rightarrow> bool" where
  "generated_path advance fdm v0 z N p \<longleftrightarrow>
     length p = N + 1 \<and> p ! 0 = v0
     \<and> (\<forall>n \<in> {1..N}. p ! n = advance fdm (p ! (n - 1)) (x_F fdm ! (n - 1)) (k_F fdm) (z (n - 1)))"

section \<open>Properties\<close>

subsection \<open>One call of ProcessPath, and a sequence of calls\<close>

lemma incr_Inr: "incr n = Inr m \<Longrightarrow> m = n + 1"
  by (auto simp: incr_def split: if_splits)

lemma European_step:
  "EuropeanPricer_ProcessPath s p = Inr s' \<Longrightarrow>
     price_E s' = price_E s \<and> NSim_E s' = NSim_E s + 1 \<and> m_payoff s' = m_payoff s
     \<and> m_discounter s' = m_discounter s \<and> p \<noteq> [] \<and> sum_E s' = sum_E s + m_payoff s (last p)"
  by (auto simp: EuropeanPricer_ProcessPath_def vec_back_def dest: incr_Inr split: sum.splits if_splits)


lemma Asian_step:
  "AsianPricer_ProcessPath s p = Inr s' \<Longrightarrow>
     price_A s' = price_A s \<and> NSim_A s' = NSim_A s + 1 \<and> m_payoff s' = m_payoff s
     \<and> m_discounter s' = m_discounter s \<and> p \<noteq> []"
  by (auto simp: AsianPricer_ProcessPath_def Average_def fdiv_def dest: incr_Inr split: sum.splits if_splits)

lemma Barrier_step:
  "BarrierPricer_ProcessPath s p = Inr s' \<Longrightarrow>
     price_B s' = price_B s \<and> NSim_B s' = NSim_B s + 1 \<and> m_payoff s' = m_payoff s
     \<and> m_discounter s' = m_discounter s
     \<and> sum_B s' = sum_B s + (if knockedOut 170 p then 0 else m_payoff s (last p))
     \<and> (\<not> knockedOut 170 p \<longrightarrow> p \<noteq> [])"
  by (auto simp: BarrierPricer_ProcessPath_def vec_back_def Let_def dest: incr_Inr split: sum.splits if_splits)

lemma Bridge_step:
  "BrownianBridgePricer_ProcessPath s p = Inr s' \<Longrightarrow>
     price_BB s' = price_BB s \<and> NSim_BB s' = NSim_BB s + 1 \<and> m_payoff s' = m_payoff s
     \<and> m_discounter s' = m_discounter s \<and> dt_BB s' = dt_BB s \<and> sde_BB s' = sde_BB s
     \<and> dist_BB s' = dist_BB s"
  by (auto simp: BrownianBridgePricer_ProcessPath_def Let_def dest: incr_Inr split: sum.splits if_splits prod.splits)

lemma feed_European:
  "feed EuropeanPricer_ProcessPath s ps = Inr s' \<Longrightarrow>
     price_E s' = price_E s \<and> NSim_E s' = NSim_E s + int (length ps)
     \<and> m_payoff s' = m_payoff s \<and> m_discounter s' = m_discounter s"
proof (induction ps arbitrary: s)
  case Nil
  then show ?case by simp
next
  case (Cons p ps)
  from Cons.prems obtain s1 where s1: "EuropeanPricer_ProcessPath s p = Inr s1"
    and rest: "feed EuropeanPricer_ProcessPath s1 ps = Inr s'"
    by (auto split: sum.splits)
  from European_step [OF s1] Cons.IH [OF rest] show ?case by simp
qed

lemma feed_Asian:
  "feed AsianPricer_ProcessPath s ps = Inr s' \<Longrightarrow>
     price_A s' = price_A s \<and> NSim_A s' = NSim_A s + int (length ps)
     \<and> m_payoff s' = m_payoff s \<and> m_discounter s' = m_discounter s"
proof (induction ps arbitrary: s)
  case Nil
  then show ?case by simp
next
  case (Cons p ps)
  from Cons.prems obtain s1 where s1: "AsianPricer_ProcessPath s p = Inr s1"
    and rest: "feed AsianPricer_ProcessPath s1 ps = Inr s'"
    by (auto split: sum.splits)
  from Asian_step [OF s1] Cons.IH [OF rest] show ?case by simp
qed

lemma feed_Barrier:
  "feed BarrierPricer_ProcessPath s ps = Inr s' \<Longrightarrow>
     price_B s' = price_B s \<and> NSim_B s' = NSim_B s + int (length ps)
     \<and> m_payoff s' = m_payoff s \<and> m_discounter s' = m_discounter s"
proof (induction ps arbitrary: s)
  case Nil
  then show ?case by simp
next
  case (Cons p ps)
  from Cons.prems obtain s1 where s1: "BarrierPricer_ProcessPath s p = Inr s1"
    and rest: "feed BarrierPricer_ProcessPath s1 ps = Inr s'"
    by (auto split: sum.splits)
  from Barrier_step [OF s1] Cons.IH [OF rest] show ?case by simp
qed

lemma feed_Bridge:
  "feed BrownianBridgePricer_ProcessPath s ps = Inr s' \<Longrightarrow>
     price_BB s' = price_BB s \<and> NSim_BB s' = NSim_BB s + int (length ps)
     \<and> m_payoff s' = m_payoff s \<and> m_discounter s' = m_discounter s"
proof (induction ps arbitrary: s)
  case Nil
  then show ?case by simp
next
  case (Cons p ps)
  from Cons.prems obtain s1 where s1: "BrownianBridgePricer_ProcessPath s p = Inr s1"
    and rest: "feed BrownianBridgePricer_ProcessPath s1 ps = Inr s'"
    by (auto split: sum.splits)
  from Bridge_step [OF s1] Cons.IH [OF rest] show ?case by simp
qed

text \<open>
  C10: for each of the four pricers, \<open>ProcessPath\<close> leaves the price as it is, and the
  price of a pricer that was constructed and then fed any sequence of paths, with no
  \<open>PostProcess\<close>, is 0: the constructor sets it to 0 and only \<open>PostProcess\<close> assigns it.
\<close>

theorem price_is_zero_until_PostProcess:
  "(EuropeanPricer_ProcessPath tE p = Inr tE' \<longrightarrow> price_E tE' = price_E tE)
   \<and> (AsianPricer_ProcessPath tA p = Inr tA' \<longrightarrow> price_A tA' = price_A tA)
   \<and> (BarrierPricer_ProcessPath tB p = Inr tB' \<longrightarrow> price_B tB' = price_B tB)
   \<and> (BrownianBridgePricer_ProcessPath tBB p = Inr tBB' \<longrightarrow> price_BB tBB' = price_BB tBB)
   \<and> (feed EuropeanPricer_ProcessPath (EuropeanPricer payoff discounter) ps = Inr sE
        \<longrightarrow> EuropeanPricer_Price sE = 0)
   \<and> (feed AsianPricer_ProcessPath (AsianPricer payoff discounter) ps = Inr sA
        \<longrightarrow> AsianPricer_Price sA = 0)
   \<and> (feed BarrierPricer_ProcessPath (BarrierPricer payoff discounter) ps = Inr sB
        \<longrightarrow> BarrierPricer_Price sB = 0)
   \<and> (feed BrownianBridgePricer_ProcessPath
         (BrownianBridgePricer payoff discounter isde step seeded uniform01) ps = Inr sBB
        \<longrightarrow> BrownianBridgePricer_Price sBB = 0)"
proof (intro conjI impI)
  assume "feed EuropeanPricer_ProcessPath (EuropeanPricer payoff discounter) ps = Inr sE"
  from feed_European [OF this] show "EuropeanPricer_Price sE = 0"
    by (simp add: EuropeanPricer_Price_def EuropeanPricer_def)
next
  assume "feed AsianPricer_ProcessPath (AsianPricer payoff discounter) ps = Inr sA"
  from feed_Asian [OF this] show "AsianPricer_Price sA = 0"
    by (simp add: AsianPricer_Price_def AsianPricer_def)
next
  assume "feed BarrierPricer_ProcessPath (BarrierPricer payoff discounter) ps = Inr sB"
  from feed_Barrier [OF this] show "BarrierPricer_Price sB = 0"
    by (simp add: BarrierPricer_Price_def BarrierPricer_def)
next
  assume "feed BrownianBridgePricer_ProcessPath
         (BrownianBridgePricer payoff discounter isde step seeded uniform01) ps = Inr sBB"
  from feed_Bridge [OF this] show "BrownianBridgePricer_Price sBB = 0"
    by (simp add: BrownianBridgePricer_Price_def BrownianBridgePricer_def)
qed (simp_all add: European_step Asian_step Barrier_step Bridge_step)


lemma bridge_scan_crossing_first:
  "bridge_scan (GBM 0 (3/10) 0 100 1) (1/4) (\<lambda>g. (0, Suc g)) 170 [100, 120] (Suc 0) (0::nat) 0
     = Inr (True, Suc 0, 1)"
  by (subst bridge_scan.simps) (simp add: vec_at_def fdiv_def GBM_Diffusion_def GBM_def incr_def)

theorem price_is_zero_until_PostProcess_witness:
  "EuropeanPricer_ProcessPath (EuropeanPricer (\<lambda>v. v) (\<lambda>u. 1)) [100, 120]
     = Inr \<lparr>m_payoff = \<lambda>v. v, m_discounter = \<lambda>u. 1, sum_E = 120, NSim_E = 1, price_E = 0\<rparr>
   \<and> EuropeanPricer_Price
        \<lparr>m_payoff = \<lambda>v. v, m_discounter = \<lambda>u. 1, sum_E = 120, NSim_E = 1, price_E = 0\<rparr> = 0
   \<and> AsianPricer_ProcessPath (AsianPricer (\<lambda>v. v) (\<lambda>u. 1)) [100, 120]
     = Inr \<lparr>m_payoff = \<lambda>v. v, m_discounter = \<lambda>u. 1,
            sum_A = 110, NSim_A = 1, price_A = 0, avg_A = 0\<rparr>
   \<and> AsianPricer_Price
        \<lparr>m_payoff = \<lambda>v. v, m_discounter = \<lambda>u. 1,
         sum_A = 110, NSim_A = 1, price_A = 0, avg_A = 0\<rparr> = 0
   \<and> BarrierPricer_ProcessPath (BarrierPricer (\<lambda>v. v) (\<lambda>u. 1)) [100, 120]
     = Inr \<lparr>m_payoff = \<lambda>v. v, m_discounter = \<lambda>u. 1,
            price_B = 0, sum_B = 120, sum2_B = 0, NSim_B = 1\<rparr>
   \<and> BarrierPricer_Price
        \<lparr>m_payoff = \<lambda>v. v, m_discounter = \<lambda>u. 1,
         price_B = 0, sum_B = 120, sum2_B = 0, NSim_B = 1\<rparr> = 0
   \<and> BrownianBridgePricer_ProcessPath
        (BrownianBridgePricer (\<lambda>v. v) (\<lambda>u. 1) (GBM 0 (3/10) 0 100 1) (1/4) (0::nat)
           (\<lambda>g. (0, Suc g))) [100, 120]
     = Inr \<lparr>m_payoff = \<lambda>v. v, m_discounter = \<lambda>u. 1,
            price_BB = 0, sum_BB = 0, sum2_BB = 0, NSim_BB = 1, dt_BB = 1/4,
            sde_BB = GBM 0 (3/10) 0 100 1, counter_BB = 1, rng_BB = Suc 0,
            dist_BB = \<lambda>g. (0, Suc g)\<rparr>
   \<and> BrownianBridgePricer_Price
        \<lparr>m_payoff = \<lambda>v. v, m_discounter = \<lambda>u. 1,
         price_BB = 0, sum_BB = 0, sum2_BB = 0, NSim_BB = 1, dt_BB = 1/4,
         sde_BB = GBM 0 (3/10) 0 100 1, counter_BB = 1, rng_BB = Suc 0,
         dist_BB = \<lambda>g. (0, Suc g)\<rparr> = 0"
proof -
  let ?E = "\<lparr>m_payoff = \<lambda>v::real. v, m_discounter = \<lambda>u::unit. 1::real,
             sum_E = 120, NSim_E = 1, price_E = 0\<rparr>"
  let ?A = "\<lparr>m_payoff = \<lambda>v::real. v, m_discounter = \<lambda>u::unit. 1::real,
             sum_A = 110, NSim_A = 1, price_A = 0, avg_A = 0\<rparr>"
  let ?B = "\<lparr>m_payoff = \<lambda>v::real. v, m_discounter = \<lambda>u::unit. 1::real,
             price_B = 0, sum_B = 120, sum2_B = 0, NSim_B = 1\<rparr>"
  let ?BB = "\<lparr>m_payoff = \<lambda>v::real. v, m_discounter = \<lambda>u::unit. 1::real,
              price_BB = 0, sum_BB = 0, sum2_BB = 0, NSim_BB = 1, dt_BB = 1/4,
              sde_BB = GBM 0 (3/10) 0 100 1, counter_BB = 1, rng_BB = Suc 0,
              dist_BB = \<lambda>g::nat. (0::real, Suc g)\<rparr>"
  have e: "EuropeanPricer_ProcessPath (EuropeanPricer (\<lambda>v. v) (\<lambda>u. 1)) [100, 120] = Inr ?E"
    by (simp add: EuropeanPricer_ProcessPath_def EuropeanPricer_def vec_back_def incr_def)
  have a: "AsianPricer_ProcessPath (AsianPricer (\<lambda>v. v) (\<lambda>u. 1)) [100, 120] = Inr ?A"
    by (simp add: AsianPricer_ProcessPath_def AsianPricer_def Average_def fdiv_def incr_def)
  have b: "BarrierPricer_ProcessPath (BarrierPricer (\<lambda>v. v) (\<lambda>u. 1)) [100, 120] = Inr ?B"
    by (simp add: BarrierPricer_ProcessPath_def BarrierPricer_def vec_back_def incr_def)
  have bb: "BrownianBridgePricer_ProcessPath
        (BrownianBridgePricer (\<lambda>v. v) (\<lambda>u. 1) (GBM 0 (3/10) 0 100 1) (1/4) (0::nat)
           (\<lambda>g. (0, Suc g))) [100, 120] = Inr ?BB"
    by (simp add: BrownianBridgePricer_ProcessPath_def BrownianBridgePricer_def
        bridge_scan_crossing_first incr_def)
  show ?thesis
    using e a b bb
      price_is_zero_until_PostProcess [where tE = "EuropeanPricer (\<lambda>v. v) (\<lambda>u. 1)"
        and p = "[100, 120]" and tE' = ?E and tA = "AsianPricer (\<lambda>v. v) (\<lambda>u. 1)" and tA' = ?A
        and tB = "BarrierPricer (\<lambda>v. v) (\<lambda>u. 1)" and tB' = ?B
        and tBB = "BrownianBridgePricer (\<lambda>v. v) (\<lambda>u. 1) (GBM 0 (3/10) 0 100 1) (1/4) (0::nat)
           (\<lambda>g. (0, Suc g))" and tBB' = ?BB
        and payoff = "\<lambda>v. v" and discounter = "\<lambda>u. 1" and ps = "[[100, 120]]"
        and sE = ?E and sA = ?A and sB = ?B and sBB = ?BB
        and isde = "GBM 0 (3/10) 0 100 1" and step = "1/4" and seeded = "0::nat"
        and ?uniform01.0 = "\<lambda>g. (0, Suc g)"]
    by (simp add: EuropeanPricer_Price_def AsianPricer_Price_def BarrierPricer_Price_def
        BrownianBridgePricer_Price_def)
qed

lemma bridge_scan_in_bounds:
  "0 < n \<Longrightarrow> bridge_scan sde dt uniform L path n g counter \<noteq> Inl OutOfBounds"
proof (induction sde dt uniform L path n g counter rule: bridge_scan.induct)
  case (1 sde dt uniform L path n g counter)
  show ?case
    using "1.IH" "1.prems"
    by (subst bridge_scan.simps)
      (auto simp: vec_at_def fdiv_def incr_def Let_def split: sum.splits prod.splits if_splits)
qed

lemma bridge_scan_empty:
  "bridge_scan sde dt uniform L [] n g counter = Inr (False, g, counter)"
  by (subst bridge_scan.simps) simp

text \<open>
  C9: on the empty path the European, the barrier and the bridge pricer read the last
  element of an empty vector, and the Asian pricer divides the accumulated sum by the length
  0. On a path that is not empty no access of the four \<open>ProcessPath\<close> is out of bounds,
  the divisor of the average is positive and the average is the accumulated sum over the
  length.
\<close>

theorem ProcessPath_needs_nonempty_path:
  "EuropeanPricer_ProcessPath sE [] = Inl OutOfBounds
   \<and> BarrierPricer_ProcessPath sB [] = Inl OutOfBounds
   \<and> BrownianBridgePricer_ProcessPath sBB [] = Inl OutOfBounds
   \<and> Average [] = Inl DivisionByZero
   \<and> AsianPricer_ProcessPath sA [] = Inl DivisionByZero
   \<and> (path \<noteq> [] \<longrightarrow>
        vec_back path = Inr (last path)
        \<and> EuropeanPricer_ProcessPath sE path \<noteq> Inl OutOfBounds
        \<and> BarrierPricer_ProcessPath sB path \<noteq> Inl OutOfBounds
        \<and> BrownianBridgePricer_ProcessPath sBB path \<noteq> Inl OutOfBounds
        \<and> 0 < real (length path)
        \<and> Average path = Inr (foldl (+) 0 path / real (length path))
        \<and> AsianPricer_ProcessPath sA path \<noteq> Inl DivisionByZero
        \<and> AsianPricer_ProcessPath sA path \<noteq> Inl OutOfBounds)"
proof (intro conjI impI)
  show "BrownianBridgePricer_ProcessPath sBB [] = Inl OutOfBounds"
    by (simp add: BrownianBridgePricer_ProcessPath_def bridge_scan_empty vec_back_def)
next
  assume ne: "path \<noteq> []"
  have "bridge_scan (sde_BB sBB) (dt_BB sBB) (dist_BB sBB) 170 path 1 (rng_BB sBB) (counter_BB sBB)
          \<noteq> Inl OutOfBounds"
    by (rule bridge_scan_in_bounds) simp
  with ne show "BrownianBridgePricer_ProcessPath sBB path \<noteq> Inl OutOfBounds"
    by (auto simp: BrownianBridgePricer_ProcessPath_def vec_back_def incr_def
        split: sum.splits prod.splits if_splits)
next
  assume ne: "path \<noteq> []"
  then show "BarrierPricer_ProcessPath sB path \<noteq> Inl OutOfBounds"
    by (auto simp: BarrierPricer_ProcessPath_def vec_back_def incr_def
        split: sum.splits if_splits)
qed (auto simp: EuropeanPricer_ProcessPath_def BarrierPricer_ProcessPath_def vec_back_def
      Average_def AsianPricer_ProcessPath_def fdiv_def incr_def split: sum.splits if_splits)


theorem ProcessPath_needs_nonempty_path_witness:
  "[100, 120] \<noteq> ([]::real list)
   \<and> vec_back [100, 120::real] = Inr 120
   \<and> EuropeanPricer_ProcessPath (EuropeanPricer (\<lambda>v. v) (\<lambda>u. 1)) [100, 120] \<noteq> Inl OutOfBounds
   \<and> BarrierPricer_ProcessPath (BarrierPricer (\<lambda>v. v) (\<lambda>u. 1)) [100, 120] \<noteq> Inl OutOfBounds
   \<and> BrownianBridgePricer_ProcessPath
        (BrownianBridgePricer (\<lambda>v. v) (\<lambda>u. 1) (GBM 0 (3/10) 0 100 1) (1/4) (0::nat)
           (\<lambda>g. (0, Suc g))) [100, 120] \<noteq> Inl OutOfBounds
   \<and> Average [100, 120] = Inr 110
   \<and> AsianPricer_ProcessPath (AsianPricer (\<lambda>v. v) (\<lambda>u. 1)) [100, 120] \<noteq> Inl DivisionByZero"
  using ProcessPath_needs_nonempty_path [where path = "[100, 120]"
      and sE = "EuropeanPricer (\<lambda>v. v) (\<lambda>u. 1)" and sB = "BarrierPricer (\<lambda>v. v) (\<lambda>u. 1)"
      and sBB = "BrownianBridgePricer (\<lambda>v. v) (\<lambda>u. 1) (GBM 0 (3/10) 0 100 1) (1/4) (0::nat)
           (\<lambda>g. (0, Suc g))"
      and sA = "AsianPricer (\<lambda>v. v) (\<lambda>u. 1)"]
  by simp

subsection \<open>PostProcess\<close>

text \<open>
  C8: a pricer that was constructed and fed \<open>k\<close> paths has counted \<open>k\<close>; for
  \<open>k \<ge> 1\<close> its \<open>PostProcess\<close> sets the price to \<open>DiscountFactor() * sum / k\<close> and
  changes nothing else, and for \<open>k = 0\<close> the division is by zero. For each of the four
  pricers. (In the C++ the division by 0.0 does not trap: the quotient of the doubles is NaN,
  which the model has as the failure \<open>DivisionByZero\<close>.)
\<close>

theorem PostProcess_after_k_paths:
  "(feed EuropeanPricer_ProcessPath (EuropeanPricer payoff discounter) ps = Inr sE \<longrightarrow>
      NSim_E sE = int (length ps)
      \<and> EuropeanPricer_PostProcess sE =
          (if length ps = 0 then Inl DivisionByZero
           else Inr (sE\<lparr>price_E := DiscountFactor sE * sum_E sE / real (length ps)\<rparr>)))
   \<and> (feed AsianPricer_ProcessPath (AsianPricer payoff discounter) ps = Inr sA \<longrightarrow>
      NSim_A sA = int (length ps)
      \<and> AsianPricer_PostProcess sA =
          (if length ps = 0 then Inl DivisionByZero
           else Inr (sA\<lparr>price_A := DiscountFactor sA * sum_A sA / real (length ps)\<rparr>)))
   \<and> (feed BarrierPricer_ProcessPath (BarrierPricer payoff discounter) ps = Inr sB \<longrightarrow>
      NSim_B sB = int (length ps)
      \<and> BarrierPricer_PostProcess sB =
          (if length ps = 0 then Inl DivisionByZero
           else Inr (sB\<lparr>price_B := DiscountFactor sB * sum_B sB / real (length ps)\<rparr>)))
   \<and> (feed BrownianBridgePricer_ProcessPath
         (BrownianBridgePricer payoff discounter isde step seeded uniform01) ps = Inr sBB \<longrightarrow>
      NSim_BB sBB = int (length ps)
      \<and> BrownianBridgePricer_PostProcess sBB =
          (if length ps = 0 then Inl DivisionByZero
           else Inr (sBB\<lparr>price_BB := DiscountFactor sBB * sum_BB sBB / real (length ps)\<rparr>)))"
proof (intro conjI impI)
  assume "feed EuropeanPricer_ProcessPath (EuropeanPricer payoff discounter) ps = Inr sE"
  from feed_European [OF this] show n: "NSim_E sE = int (length ps)"
    by (simp add: EuropeanPricer_def)
  show "EuropeanPricer_PostProcess sE =
          (if length ps = 0 then Inl DivisionByZero
           else Inr (sE\<lparr>price_E := DiscountFactor sE * sum_E sE / real (length ps)\<rparr>))"
    by (simp add: EuropeanPricer_PostProcess_def fdiv_def n)
next
  assume "feed AsianPricer_ProcessPath (AsianPricer payoff discounter) ps = Inr sA"
  from feed_Asian [OF this] show n: "NSim_A sA = int (length ps)"
    by (simp add: AsianPricer_def)
  show "AsianPricer_PostProcess sA =
          (if length ps = 0 then Inl DivisionByZero
           else Inr (sA\<lparr>price_A := DiscountFactor sA * sum_A sA / real (length ps)\<rparr>))"
    by (simp add: AsianPricer_PostProcess_def fdiv_def n)
next
  assume "feed BarrierPricer_ProcessPath (BarrierPricer payoff discounter) ps = Inr sB"
  from feed_Barrier [OF this] show n: "NSim_B sB = int (length ps)"
    by (simp add: BarrierPricer_def)
  show "BarrierPricer_PostProcess sB =
          (if length ps = 0 then Inl DivisionByZero
           else Inr (sB\<lparr>price_B := DiscountFactor sB * sum_B sB / real (length ps)\<rparr>))"
    by (simp add: BarrierPricer_PostProcess_def fdiv_def n)
next
  assume "feed BrownianBridgePricer_ProcessPath
         (BrownianBridgePricer payoff discounter isde step seeded uniform01) ps = Inr sBB"
  from feed_Bridge [OF this] show n: "NSim_BB sBB = int (length ps)"
    by (simp add: BrownianBridgePricer_def)
  show "BrownianBridgePricer_PostProcess sBB =
          (if length ps = 0 then Inl DivisionByZero
           else Inr (sBB\<lparr>price_BB := DiscountFactor sBB * sum_BB sBB / real (length ps)\<rparr>))"
    by (simp add: BrownianBridgePricer_PostProcess_def fdiv_def n)
qed


lemma run_European:
  "feed EuropeanPricer_ProcessPath (EuropeanPricer (\<lambda>v. v) (\<lambda>u. 1)) [[100, 120]]
     = Inr \<lparr>m_payoff = \<lambda>v. v, m_discounter = \<lambda>u. 1, sum_E = 120, NSim_E = 1, price_E = 0\<rparr>"
  by (simp add: EuropeanPricer_ProcessPath_def EuropeanPricer_def vec_back_def incr_def)

lemma run_Asian:
  "feed AsianPricer_ProcessPath (AsianPricer (\<lambda>v. v) (\<lambda>u. 1)) [[100, 120]]
     = Inr \<lparr>m_payoff = \<lambda>v. v, m_discounter = \<lambda>u. 1,
            sum_A = 110, NSim_A = 1, price_A = 0, avg_A = 0\<rparr>"
  by (simp add: AsianPricer_ProcessPath_def AsianPricer_def Average_def fdiv_def incr_def)

lemma run_Barrier:
  "feed BarrierPricer_ProcessPath (BarrierPricer (\<lambda>v. v) (\<lambda>u. 1)) [[100, 120]]
     = Inr \<lparr>m_payoff = \<lambda>v. v, m_discounter = \<lambda>u. 1,
            price_B = 0, sum_B = 120, sum2_B = 0, NSim_B = 1\<rparr>"
  by (simp add: BarrierPricer_ProcessPath_def BarrierPricer_def vec_back_def incr_def)

lemma run_Bridge:
  "feed BrownianBridgePricer_ProcessPath
        (BrownianBridgePricer (\<lambda>v. v) (\<lambda>u. 1) (GBM 0 (3/10) 0 100 1) (1/4) (0::nat)
           (\<lambda>g. (0, Suc g))) [[100, 120]]
     = Inr \<lparr>m_payoff = \<lambda>v. v, m_discounter = \<lambda>u. 1,
            price_BB = 0, sum_BB = 0, sum2_BB = 0, NSim_BB = 1, dt_BB = 1/4,
            sde_BB = GBM 0 (3/10) 0 100 1, counter_BB = 1, rng_BB = Suc 0,
            dist_BB = \<lambda>g. (0, Suc g)\<rparr>"
  by (simp add: BrownianBridgePricer_ProcessPath_def BrownianBridgePricer_def
        bridge_scan_crossing_first incr_def)

theorem PostProcess_after_k_paths_witness:
  "EuropeanPricer_PostProcess
     \<lparr>m_payoff = \<lambda>v. v, m_discounter = \<lambda>u. 1, sum_E = 120, NSim_E = 1, price_E = 0\<rparr>
     = Inr \<lparr>m_payoff = \<lambda>v. v, m_discounter = \<lambda>u. 1, sum_E = 120, NSim_E = 1, price_E = 120\<rparr>
   \<and> AsianPricer_PostProcess
     \<lparr>m_payoff = \<lambda>v. v, m_discounter = \<lambda>u. 1, sum_A = 110, NSim_A = 1, price_A = 0, avg_A = 0\<rparr>
     = Inr \<lparr>m_payoff = \<lambda>v. v, m_discounter = \<lambda>u. 1,
            sum_A = 110, NSim_A = 1, price_A = 110, avg_A = 0\<rparr>
   \<and> BarrierPricer_PostProcess
     \<lparr>m_payoff = \<lambda>v. v, m_discounter = \<lambda>u. 1,
      price_B = 0, sum_B = 120, sum2_B = 0, NSim_B = 1\<rparr>
     = Inr \<lparr>m_payoff = \<lambda>v. v, m_discounter = \<lambda>u. 1,
            price_B = 120, sum_B = 120, sum2_B = 0, NSim_B = 1\<rparr>
   \<and> BrownianBridgePricer_PostProcess
     \<lparr>m_payoff = \<lambda>v. v, m_discounter = \<lambda>u. 1,
      price_BB = 0, sum_BB = 0, sum2_BB = 0, NSim_BB = 1, dt_BB = 1/4,
      sde_BB = GBM 0 (3/10) 0 100 1, counter_BB = 1, rng_BB = Suc 0,
      dist_BB = \<lambda>g. (0, Suc g)\<rparr>
     = Inr \<lparr>m_payoff = \<lambda>v. v, m_discounter = \<lambda>u. 1,
            price_BB = 0, sum_BB = 0, sum2_BB = 0, NSim_BB = 1, dt_BB = 1/4,
            sde_BB = GBM 0 (3/10) 0 100 1, counter_BB = 1, rng_BB = Suc 0,
            dist_BB = \<lambda>g. (0, Suc g)\<rparr>
   \<and> EuropeanPricer_PostProcess (EuropeanPricer (\<lambda>v. v) (\<lambda>u. 1)) = Inl DivisionByZero"
proof -
  note T = PostProcess_after_k_paths [where payoff = "\<lambda>v. v" and discounter = "\<lambda>u. 1"]
  have e: "EuropeanPricer_PostProcess
     \<lparr>m_payoff = \<lambda>v. v, m_discounter = \<lambda>u. 1, sum_E = 120, NSim_E = 1, price_E = 0\<rparr>
     = Inr \<lparr>m_payoff = \<lambda>v. v, m_discounter = \<lambda>u. 1, sum_E = 120, NSim_E = 1, price_E = 120\<rparr>"
    using T [THEN conjunct1, THEN mp, OF run_European] by (simp add: DiscountFactor_def)
  have a: "AsianPricer_PostProcess
     \<lparr>m_payoff = \<lambda>v. v, m_discounter = \<lambda>u. 1, sum_A = 110, NSim_A = 1, price_A = 0, avg_A = 0\<rparr>
     = Inr \<lparr>m_payoff = \<lambda>v. v, m_discounter = \<lambda>u. 1,
            sum_A = 110, NSim_A = 1, price_A = 110, avg_A = 0\<rparr>"
    using T [THEN conjunct2, THEN conjunct1, THEN mp, OF run_Asian]
    by (simp add: DiscountFactor_def)
  have b: "BarrierPricer_PostProcess
     \<lparr>m_payoff = \<lambda>v. v, m_discounter = \<lambda>u. 1,
      price_B = 0, sum_B = 120, sum2_B = 0, NSim_B = 1\<rparr>
     = Inr \<lparr>m_payoff = \<lambda>v. v, m_discounter = \<lambda>u. 1,
            price_B = 120, sum_B = 120, sum2_B = 0, NSim_B = 1\<rparr>"
    using T [THEN conjunct2, THEN conjunct2, THEN conjunct1, THEN mp, OF run_Barrier]
    by (simp add: DiscountFactor_def)
  have bb: "BrownianBridgePricer_PostProcess
     \<lparr>m_payoff = \<lambda>v. v, m_discounter = \<lambda>u. 1,
      price_BB = 0, sum_BB = 0, sum2_BB = 0, NSim_BB = 1, dt_BB = 1/4,
      sde_BB = GBM 0 (3/10) 0 100 1, counter_BB = 1, rng_BB = Suc 0,
      dist_BB = \<lambda>g. (0, Suc g)\<rparr>
     = Inr \<lparr>m_payoff = \<lambda>v. v, m_discounter = \<lambda>u. 1,
            price_BB = 0, sum_BB = 0, sum2_BB = 0, NSim_BB = 1, dt_BB = 1/4,
            sde_BB = GBM 0 (3/10) 0 100 1, counter_BB = 1, rng_BB = Suc 0,
            dist_BB = \<lambda>g. (0, Suc g)\<rparr>"
    using T [THEN conjunct2, THEN conjunct2, THEN conjunct2, THEN mp, OF run_Bridge]
    by (simp add: DiscountFactor_def)
  have z: "EuropeanPricer_PostProcess (EuropeanPricer (\<lambda>v. v) (\<lambda>u. 1)) = Inl DivisionByZero"
    using T [THEN conjunct1, THEN mp, of "[]" "EuropeanPricer (\<lambda>v. v) (\<lambda>u. 1)"] by simp
  from e a b bb z show ?thesis by blast
qed

subsection \<open>The barrier price against the vanilla price\<close>

lemma Barrier_European_step:
  assumes nonneg: "\<forall>v. 0 \<le> m_payoff e v"
    and rel: "m_payoff b = m_payoff e \<and> m_discounter b = m_discounter e
              \<and> sum_B b \<le> sum_E e \<and> NSim_B b = NSim_E e"
    and b': "BarrierPricer_ProcessPath b p = Inr b'"
    and e': "EuropeanPricer_ProcessPath e p = Inr e'"
  shows "m_payoff b' = m_payoff e' \<and> m_discounter b' = m_discounter e'
         \<and> sum_B b' \<le> sum_E e' \<and> NSim_B b' = NSim_E e'"
proof -
  note B = Barrier_step [OF b'] and E = European_step [OF e']
  have "0 \<le> m_payoff e (last p)" using nonneg by simp
  with B E rel show ?thesis by (auto split: if_splits)
qed

lemma Barrier_European_feed:
  "\<forall>v. 0 \<le> m_payoff e v \<Longrightarrow>
   m_payoff b = m_payoff e \<and> m_discounter b = m_discounter e
     \<and> sum_B b \<le> sum_E e \<and> NSim_B b = NSim_E e \<Longrightarrow>
   feed BarrierPricer_ProcessPath b ps = Inr b' \<Longrightarrow>
   feed EuropeanPricer_ProcessPath e ps = Inr e' \<Longrightarrow>
   m_payoff b' = m_payoff e' \<and> m_discounter b' = m_discounter e'
     \<and> sum_B b' \<le> sum_E e' \<and> NSim_B b' = NSim_E e'"
proof (induction ps arbitrary: b e)
  case Nil
  then show ?case by simp
next
  case (Cons p ps)
  from Cons.prems(3) obtain b1 where b1: "BarrierPricer_ProcessPath b p = Inr b1"
    and restb: "feed BarrierPricer_ProcessPath b1 ps = Inr b'"
    by (auto split: sum.splits)
  from Cons.prems(4) obtain e1 where e1: "EuropeanPricer_ProcessPath e p = Inr e1"
    and reste: "feed EuropeanPricer_ProcessPath e1 ps = Inr e'"
    by (auto split: sum.splits)
  have rel1: "m_payoff b1 = m_payoff e1 \<and> m_discounter b1 = m_discounter e1
     \<and> sum_B b1 \<le> sum_E e1 \<and> NSim_B b1 = NSim_E e1"
    by (rule Barrier_European_step [OF Cons.prems(1) Cons.prems(2) b1 e1])
  have "\<forall>v. 0 \<le> m_payoff e1 v"
    using Cons.prems(1) European_step [OF e1] by simp
  from Cons.IH [OF this rel1 restb reste] show ?case .
qed

lemma feed_European_succeeds:
  "\<forall>p \<in> set ps. p \<noteq> [] \<Longrightarrow> NSim_E s + int (length ps) \<le> 2147483647 \<Longrightarrow>
   \<exists>s'. feed EuropeanPricer_ProcessPath s ps = Inr s'"
proof (induction ps arbitrary: s)
  case Nil
  then show ?case by simp
next
  case (Cons p ps)
  from Cons.prems obtain s1 where s1: "EuropeanPricer_ProcessPath s p = Inr s1"
    by (auto simp: EuropeanPricer_ProcessPath_def vec_back_def incr_def)
  from European_step [OF s1] Cons.prems
  have "\<forall>p \<in> set ps. p \<noteq> []" "NSim_E s1 + int (length ps) \<le> 2147483647" by auto
  from Cons.IH [OF this] s1 show ?case by auto
qed

lemma feed_Barrier_succeeds:
  "\<forall>p \<in> set ps. p \<noteq> [] \<Longrightarrow> NSim_B s + int (length ps) \<le> 2147483647 \<Longrightarrow>
   \<exists>s'. feed BarrierPricer_ProcessPath s ps = Inr s'"
proof (induction ps arbitrary: s)
  case Nil
  then show ?case by simp
next
  case (Cons p ps)
  from Cons.prems have "\<exists>s1. BarrierPricer_ProcessPath s p = Inr s1"
    by (cases "knockedOut 170 p")
      (auto simp: BarrierPricer_ProcessPath_def vec_back_def incr_def)
  then obtain s1 where s1: "BarrierPricer_ProcessPath s p = Inr s1" ..
  from Barrier_step [OF s1] Cons.prems
  have "\<forall>p \<in> set ps. p \<noteq> []" "NSim_B s1 + int (length ps) \<le> 2147483647" by auto
  from Cons.IH [OF this] s1 show ?case by auto
qed

text \<open>
  C3: with one payoff that is nowhere negative and one discounter that returns a factor that
  is not negative, the barrier pricer and the European pricer are constructed and fed the
  same sequence of paths. Whenever both finalise, the barrier price is at most the European
  price; and both do finalise when the sequence is not empty, no path in it is empty, and it
  has at most \<open>2^31 - 1\<close> paths. The level 170 and the rebate 0 are constants of
  \<open>BarrierPricer::ProcessPath\<close>.
\<close>

theorem Barrier_price_le_European_price:
  assumes nonneg: "\<forall>v. 0 \<le> payoff v" and disc: "0 \<le> discounter ()"
  shows "(feed BarrierPricer_ProcessPath (BarrierPricer payoff discounter) ps = Inr b
          \<and> BarrierPricer_PostProcess b = Inr b'
          \<and> feed EuropeanPricer_ProcessPath (EuropeanPricer payoff discounter) ps = Inr e
          \<and> EuropeanPricer_PostProcess e = Inr e'
          \<longrightarrow> BarrierPricer_Price b' \<le> EuropeanPricer_Price e')
       \<and> (ps \<noteq> [] \<and> (\<forall>p \<in> set ps. p \<noteq> []) \<and> length ps \<le> 2147483647 \<longrightarrow>
            (\<exists>b1 b2 e1 e2.
               feed BarrierPricer_ProcessPath (BarrierPricer payoff discounter) ps = Inr b1
               \<and> BarrierPricer_PostProcess b1 = Inr b2
               \<and> feed EuropeanPricer_ProcessPath (EuropeanPricer payoff discounter) ps = Inr e1
               \<and> EuropeanPricer_PostProcess e1 = Inr e2
               \<and> BarrierPricer_Price b2 \<le> EuropeanPricer_Price e2))"
proof -
  have main: "BarrierPricer_Price b' \<le> EuropeanPricer_Price e'"
    if fb: "feed BarrierPricer_ProcessPath (BarrierPricer payoff discounter) ps = Inr b"
      and pb: "BarrierPricer_PostProcess b = Inr b'"
      and fe: "feed EuropeanPricer_ProcessPath (EuropeanPricer payoff discounter) ps = Inr e"
      and pe: "EuropeanPricer_PostProcess e = Inr e'"
    for b b' e e'
  proof -
    have rel: "m_payoff b = m_payoff e \<and> m_discounter b = m_discounter e
        \<and> sum_B b \<le> sum_E e \<and> NSim_B b = NSim_E e"
      by (rule Barrier_European_feed [OF _ _ fb fe])
        (simp_all add: BarrierPricer_def EuropeanPricer_def nonneg)
    have n: "NSim_E e = int (length ps)" and d: "m_discounter e = discounter"
      using feed_European [OF fe] by (simp_all add: EuropeanPricer_def)
    from pe have pos: "0 < real (length ps)"
      by (auto simp: EuropeanPricer_PostProcess_def fdiv_def n split: if_splits)
    from pb rel n have b'_eq: "price_B b' = discounter () * sum_B b / real (length ps)"
      by (auto simp: BarrierPricer_PostProcess_def fdiv_def DiscountFactor_def d split: if_splits)
    from pe n have e'_eq: "price_E e' = discounter () * sum_E e / real (length ps)"
      by (auto simp: EuropeanPricer_PostProcess_def fdiv_def DiscountFactor_def d split: if_splits)
    have "discounter () * sum_B b \<le> discounter () * sum_E e"
      using rel disc by (simp add: mult_left_mono)
    then have "discounter () * sum_B b / real (length ps) \<le> discounter () * sum_E e / real (length ps)"
      using pos by (simp add: divide_right_mono)
    then show ?thesis
      by (simp add: BarrierPricer_Price_def EuropeanPricer_Price_def b'_eq e'_eq)
  qed
  have ex: "\<exists>b1 b2 e1 e2.
               feed BarrierPricer_ProcessPath (BarrierPricer payoff discounter) ps = Inr b1
               \<and> BarrierPricer_PostProcess b1 = Inr b2
               \<and> feed EuropeanPricer_ProcessPath (EuropeanPricer payoff discounter) ps = Inr e1
               \<and> EuropeanPricer_PostProcess e1 = Inr e2
               \<and> BarrierPricer_Price b2 \<le> EuropeanPricer_Price e2"
    if ne: "ps \<noteq> []" and all: "\<forall>p \<in> set ps. p \<noteq> []" and len: "length ps \<le> 2147483647"
  proof -
    from feed_Barrier_succeeds [OF all, of "BarrierPricer payoff discounter"] len
    obtain b1 where fb: "feed BarrierPricer_ProcessPath (BarrierPricer payoff discounter) ps = Inr b1"
      by (auto simp: BarrierPricer_def)
    from feed_European_succeeds [OF all, of "EuropeanPricer payoff discounter"] len
    obtain e1 where fe: "feed EuropeanPricer_ProcessPath (EuropeanPricer payoff discounter) ps = Inr e1"
      by (auto simp: EuropeanPricer_def)
    from feed_Barrier [OF fb] ne obtain b2 where pb: "BarrierPricer_PostProcess b1 = Inr b2"
      by (auto simp: BarrierPricer_PostProcess_def fdiv_def BarrierPricer_def)
    from feed_European [OF fe] ne obtain e2 where pe: "EuropeanPricer_PostProcess e1 = Inr e2"
      by (auto simp: EuropeanPricer_PostProcess_def fdiv_def EuropeanPricer_def)
    from main [OF fb pb fe pe] fb pb fe pe show ?thesis by blast
  qed
  from main ex show ?thesis by blast
qed


theorem Barrier_price_le_European_price_witness:
  "(\<forall>v::real. 0 \<le> max (v - 65) 0) \<and> (0::real) \<le> 1 / 2
   \<and> feed BarrierPricer_ProcessPath (BarrierPricer (\<lambda>v. max (v - 65) 0) (\<lambda>u. 1 / 2))
         [[100, 120], [100, 180]]
       = Inr \<lparr>m_payoff = \<lambda>v. max (v - 65) 0, m_discounter = \<lambda>u. 1 / 2,
              price_B = 0, sum_B = 55, sum2_B = 0, NSim_B = 2\<rparr>
   \<and> BarrierPricer_PostProcess
         \<lparr>m_payoff = \<lambda>v. max (v - 65) 0, m_discounter = \<lambda>u. 1 / 2,
          price_B = 0, sum_B = 55, sum2_B = 0, NSim_B = 2\<rparr>
       = Inr \<lparr>m_payoff = \<lambda>v. max (v - 65) 0, m_discounter = \<lambda>u. 1 / 2,
              price_B = 55 / 4, sum_B = 55, sum2_B = 0, NSim_B = 2\<rparr>
   \<and> feed EuropeanPricer_ProcessPath (EuropeanPricer (\<lambda>v. max (v - 65) 0) (\<lambda>u. 1 / 2))
         [[100, 120], [100, 180]]
       = Inr \<lparr>m_payoff = \<lambda>v. max (v - 65) 0, m_discounter = \<lambda>u. 1 / 2,
              sum_E = 170, NSim_E = 2, price_E = 0\<rparr>
   \<and> EuropeanPricer_PostProcess
         \<lparr>m_payoff = \<lambda>v. max (v - 65) 0, m_discounter = \<lambda>u. 1 / 2,
          sum_E = 170, NSim_E = 2, price_E = 0\<rparr>
       = Inr \<lparr>m_payoff = \<lambda>v. max (v - 65) 0, m_discounter = \<lambda>u. 1 / 2,
              sum_E = 170, NSim_E = 2, price_E = 85 / 2\<rparr>
   \<and> BarrierPricer_Price
         \<lparr>m_payoff = \<lambda>v. max (v - 65) 0, m_discounter = \<lambda>u. 1 / 2,
          price_B = 55 / 4, sum_B = 55, sum2_B = 0, NSim_B = 2\<rparr>
       \<le> EuropeanPricer_Price
         \<lparr>m_payoff = \<lambda>v. max (v - 65) 0, m_discounter = \<lambda>u. 1 / 2,
          sum_E = 170, NSim_E = 2, price_E = 85 / 2\<rparr>
   \<and> (\<exists>b1 b2 e1 e2.
         feed BarrierPricer_ProcessPath (BarrierPricer (\<lambda>v. max (v - 65) 0) (\<lambda>u. 1 / 2))
           [[100, 120], [100, 180]] = Inr b1
         \<and> BarrierPricer_PostProcess b1 = Inr b2
         \<and> feed EuropeanPricer_ProcessPath (EuropeanPricer (\<lambda>v. max (v - 65) 0) (\<lambda>u. 1 / 2))
           [[100, 120], [100, 180]] = Inr e1
         \<and> EuropeanPricer_PostProcess e1 = Inr e2
         \<and> BarrierPricer_Price b2 \<le> EuropeanPricer_Price e2)"
proof -
  have nonneg: "\<forall>v::real. 0 \<le> max (v - 65) 0" by simp
  have disc: "(0::real) \<le> (\<lambda>u::unit. 1 / 2) ()" by simp
  note T = Barrier_price_le_European_price [of "\<lambda>v. max (v - 65) 0" "\<lambda>u. 1 / 2", OF nonneg disc]
  have fb: "feed BarrierPricer_ProcessPath (BarrierPricer (\<lambda>v. max (v - 65) 0) (\<lambda>u. 1 / 2))
         [[100, 120], [100, 180]]
       = Inr \<lparr>m_payoff = \<lambda>v. max (v - 65) 0, m_discounter = \<lambda>u. 1 / 2,
              price_B = 0, sum_B = 55, sum2_B = 0, NSim_B = 2\<rparr>"
    by (simp add: BarrierPricer_ProcessPath_def BarrierPricer_def vec_back_def incr_def)
  have pb: "BarrierPricer_PostProcess
         \<lparr>m_payoff = \<lambda>v. max (v - 65) 0, m_discounter = \<lambda>u. 1 / 2,
          price_B = 0, sum_B = 55, sum2_B = 0, NSim_B = 2\<rparr>
       = Inr \<lparr>m_payoff = \<lambda>v. max (v - 65) 0, m_discounter = \<lambda>u. 1 / 2,
              price_B = 55 / 4, sum_B = 55, sum2_B = 0, NSim_B = 2\<rparr>"
    by (simp add: BarrierPricer_PostProcess_def fdiv_def DiscountFactor_def)
  have fe: "feed EuropeanPricer_ProcessPath (EuropeanPricer (\<lambda>v. max (v - 65) 0) (\<lambda>u. 1 / 2))
         [[100, 120], [100, 180]]
       = Inr \<lparr>m_payoff = \<lambda>v. max (v - 65) 0, m_discounter = \<lambda>u. 1 / 2,
              sum_E = 170, NSim_E = 2, price_E = 0\<rparr>"
    by (simp add: EuropeanPricer_ProcessPath_def EuropeanPricer_def vec_back_def incr_def)
  have pe: "EuropeanPricer_PostProcess
         \<lparr>m_payoff = \<lambda>v. max (v - 65) 0, m_discounter = \<lambda>u. 1 / 2,
          sum_E = 170, NSim_E = 2, price_E = 0\<rparr>
       = Inr \<lparr>m_payoff = \<lambda>v. max (v - 65) 0, m_discounter = \<lambda>u. 1 / 2,
              sum_E = 170, NSim_E = 2, price_E = 85 / 2\<rparr>"
    by (simp add: EuropeanPricer_PostProcess_def fdiv_def DiscountFactor_def)
  have le: "BarrierPricer_Price
         \<lparr>m_payoff = \<lambda>v. max (v - 65) 0, m_discounter = \<lambda>u. 1 / 2,
          price_B = 55 / 4, sum_B = 55, sum2_B = 0, NSim_B = 2\<rparr>
       \<le> EuropeanPricer_Price
         \<lparr>m_payoff = \<lambda>v. max (v - 65) 0, m_discounter = \<lambda>u. 1 / 2,
          sum_E = 170, NSim_E = 2, price_E = 85 / 2\<rparr>"
    using T [THEN conjunct1, THEN mp, OF conjI [OF fb conjI [OF pb conjI [OF fe pe]]]] .
  have ex: "\<exists>b1 b2 e1 e2.
         feed BarrierPricer_ProcessPath (BarrierPricer (\<lambda>v. max (v - 65) 0) (\<lambda>u. 1 / 2))
           [[100, 120], [100, 180]] = Inr b1
         \<and> BarrierPricer_PostProcess b1 = Inr b2
         \<and> feed EuropeanPricer_ProcessPath (EuropeanPricer (\<lambda>v. max (v - 65) 0) (\<lambda>u. 1 / 2))
           [[100, 120], [100, 180]] = Inr e1
         \<and> EuropeanPricer_PostProcess e1 = Inr e2
         \<and> BarrierPricer_Price b2 \<le> EuropeanPricer_Price e2"
    by (rule T [THEN conjunct2, THEN mp, of "[[100, 120], [100, 180]]"]) simp
  from nonneg fb pb fe pe le ex show ?thesis by simp
qed

subsection \<open>The elasticity-of-variance model\<close>

text \<open>
  C6: for \<open>S0 > 0\<close> the constructor of the CEV model stores
  \<open>vol = sigma * S0^(1 - beta)\<close>, and for \<open>x > 0\<close> the diffusion is
  \<open>sigma * S0^(1 - beta) * x^beta\<close>. It is \<open>sigma * x^beta\<close> when
  \<open>S0^(1 - beta) = 1\<close>, and for \<open>sigma \<noteq> 0\<close> only then.
\<close>

theorem CEV_Diffusion_rescaled:
  assumes "0 < S0" and "0 < xx"
  shows "\<exists>c. CEV mu sigma q S0 T beta = Inr c
           \<and> vol_C c = sigma * S0 powr (1 - beta)
           \<and> CEV_Diffusion c xx t = Inr (sigma * S0 powr (1 - beta) * xx powr beta)
           \<and> Diffusion (CEV_obj c) xx t = Inr (sigma * S0 powr (1 - beta) * xx powr beta)
           \<and> (S0 powr (1 - beta) = 1 \<longrightarrow> CEV_Diffusion c xx t = Inr (sigma * xx powr beta))
           \<and> (sigma \<noteq> 0 \<and> CEV_Diffusion c xx t = Inr (sigma * xx powr beta)
                \<longrightarrow> S0 powr (1 - beta) = 1)"
proof -
  have pos: "0 < xx powr beta" using assms(2) by simp
  have "sigma * S0 powr (1 - beta) * xx powr beta = sigma * xx powr beta \<Longrightarrow> sigma \<noteq> 0
        \<Longrightarrow> S0 powr (1 - beta) = 1"
    using pos by simp
  then show ?thesis
    using assms by (auto simp: CEV_def CEV_Diffusion_def std_pow_def)
qed

theorem CEV_Diffusion_rescaled_witness:
  "(0::real) < 4 \<and> (0::real) < 9
   \<and> (\<exists>c. CEV 0 1 0 4 1 (1/2) = Inr c
           \<and> vol_C c = 2
           \<and> CEV_Diffusion c 9 0 = Inr 6
           \<and> Diffusion (CEV_obj c) 9 0 = Inr 6)
   \<and> (\<exists>c. CEV 0 1 0 1 1 (1/2) = Inr c \<and> CEV_Diffusion c 9 0 = Inr (1 * 9 powr (1/2)))"
proof -
  have a: "(0::real) < 4" and b: "(0::real) < 9" and c: "(0::real) < 1" by simp_all
  have four: "(4::real) powr (1 / 2) = 2" and nine: "(9::real) powr (1 / 2) = 3"
    by (simp_all add: powr_half_sqrt)
  from CEV_Diffusion_rescaled [OF a b, of 0 1 0 1 "1/2" 0]
  obtain c1 where "CEV 0 1 0 4 1 (1/2) = Inr c1"
    "vol_C c1 = 1 * 4 powr (1 - 1/2)"
    "CEV_Diffusion c1 9 0 = Inr (1 * 4 powr (1 - 1/2) * 9 powr (1/2))"
    "Diffusion (CEV_obj c1) 9 0 = Inr (1 * 4 powr (1 - 1/2) * 9 powr (1/2))"
    by blast
  then have first: "\<exists>c. CEV 0 1 0 4 1 (1/2) = Inr c
           \<and> vol_C c = 2
           \<and> CEV_Diffusion c 9 0 = Inr 6
           \<and> Diffusion (CEV_obj c) 9 0 = Inr 6"
    using four nine by (intro exI [of _ c1]) simp
  from CEV_Diffusion_rescaled [OF c b, of 0 1 0 1 "1/2" 0]
  obtain c2 where "CEV 0 1 0 1 1 (1/2) = Inr c2"
    "1 powr (1 - 1/2) = (1::real) \<longrightarrow> CEV_Diffusion c2 9 0 = Inr (1 * 9 powr (1/2))"
    by blast
  then have second:
    "\<exists>c. CEV 0 1 0 1 1 (1/2) = Inr c \<and> CEV_Diffusion c 9 0 = Inr (1 * 9 powr (1/2))"
    by (intro exI [of _ c2]) simp
  from first second show ?thesis by simp
qed

text \<open>
  With coefficient 1, exponent 1/2 and initial condition 4 the stored coefficient is 2, and
  the diffusion at state 1 is 2, not \<open>1 * 1^(1/2)\<close>.
\<close>

theorem CEV_Diffusion_counterexample:
  "CEV 0 1 0 4 1 (1/2) = Inr \<lparr>ic = 4, exp_I = 1, mu_C = 0, vol_C = 2, d_C = 0, b_C = 1/2\<rparr>
   \<and> CEV_Diffusion \<lparr>ic = 4, exp_I = 1, mu_C = 0, vol_C = 2, d_C = 0, b_C = 1/2\<rparr> 1 0 = Inr 2
   \<and> CEV_Diffusion \<lparr>ic = 4, exp_I = 1, mu_C = 0, vol_C = 2, d_C = 0, b_C = 1/2\<rparr> 1 0
       \<noteq> Inr (1 * 1 powr (1/2))"
  by (simp add: CEV_def CEV_Diffusion_def std_pow_def powr_half_sqrt)

subsection \<open>The schemes\<close>

text \<open>
  C4, as the code has it: with \<open>a\<close>, \<open>b\<close>, \<open>b'\<close> the model's drift, diffusion
  and diffusion derivative at \<open>(x_n, t_n)\<close>, the Euler scheme returns
  \<open>x_n + a * dt + b * s * Z\<close> and the Milstein scheme returns that plus
  \<open>0.5 * dt * b * b' * (Z^2 - 1)\<close>, where \<open>s\<close> is the member \<open>dtSqrt\<close>: the square root
  of the scheme's own step \<open>k = T / N\<close>, computed by the constructor, whatever \<open>dt\<close> the
  call passes. For a call with \<open>dt = k\<close>, as the mediator makes it, \<open>s\<close> is the square
  root of \<open>dt\<close>.
\<close>

theorem MilsteinFdm_advance_formula:
  assumes "Drift (sde_F f) xn tn = Inr a"
    and "Diffusion (sde_F f) xn tn = Inr b"
    and "DiffusionDerivative (sde_F f) xn tn = Inr b'"
  shows "EulerFdm_advance f xn tn dt Z = Inr (xn + a * dt + b * dtSqrt_F f * Z)
       \<and> MilsteinFdm_advance f xn tn dt Z =
           Inr (xn + a * dt + b * dtSqrt_F f * Z + 0.5 * dt * b * b' * (Z\<^sup>2 - 1))
       \<and> (MilsteinFdm sde N = Inr f \<longrightarrow>
            k_F f = Expiry sde / real_of_int N \<and> dtSqrt_F f = sqrt (k_F f)
            \<and> MilsteinFdm_advance f xn tn (k_F f) Z =
                Inr (xn + a * k_F f + b * sqrt (k_F f) * Z
                       + 0.5 * k_F f * b * b' * (Z\<^sup>2 - 1)))"
  using assms
  by (auto simp: EulerFdm_advance_def MilsteinFdm_advance_def MilsteinFdm_def
      MilsteinFdm_with_def FdmBase_with_def fdiv_with_def sqrt_with_def exact_arith_def power2_eq_square
      split: sum.splits if_splits)

text \<open>
  C5: the exact scheme returns the same for any two states, given the same \<open>t_n\<close>,
  \<open>dt\<close> and \<open>Z\<close>; for \<open>t_n + dt \<ge> 0\<close> (below 0 the square root is NaN) the result is
  \<open>S0 * exp ((mu - 0.5 * sigma^2) * (t_n + dt) + sigma * sqrt (t_n + dt) * Z)\<close>, with
  \<open>S0\<close>, \<open>sigma\<close> and \<open>mu\<close> the values the constructor stored.
\<close>

theorem ExactFdm_advance_formula:
  "ExactFdm_advance f xn tn dt Z = ExactFdm_advance f xn' tn dt Z
   \<and> (0 \<le> tn + dt \<longrightarrow>
        ExactFdm_advance f xn tn dt Z =
          Inr (S0_X f * exp ((mu_X f - 0.5 * (sig_X f)\<^sup>2) * (tn + dt)
                               + sig_X f * sqrt (tn + dt) * Z)))
   \<and> (ExactFdm sde N S0 vol drift = Inr f \<longrightarrow> S0_X f = S0 \<and> sig_X f = vol \<and> mu_X f = drift)"
  by (auto simp: ExactFdm_advance_def ExactFdm_def ExactFdm_with_def std_sqrt_def
      power2_eq_square Let_def
      split: sum.splits)


lemma GBM_fields [simp]:
  "ic (GBM mu sigma q S0 T) = S0" "exp_I (GBM mu sigma q S0 T) = T"
  "mu_G (GBM mu sigma q S0 T) = mu" "vol_G (GBM mu sigma q S0 T) = sigma"
  "div_G (GBM mu sigma q S0 T) = q"
  by (simp_all add: GBM_def)

lemma MilsteinFdm_FdmBase: "MilsteinFdm sde N = FdmBase sde N"
  by (simp add: MilsteinFdm_def MilsteinFdm_with_def FdmBase_def)

lemma ExactFdm_FdmBase:
  "ExactFdm sde N S0 vol drift =
     (case FdmBase sde N of
        Inl e \<Rightarrow> Inl e
      | Inr f \<Rightarrow>
          Inr \<lparr>sde_F = sde_F f, dtSqrt_F = dtSqrt_F f, NT_F = NT_F f, x_F = x_F f, k_F = k_F f,
               S0_X = S0, sig_X = vol, mu_X = drift\<rparr>)"
  by (simp add: ExactFdm_def ExactFdm_with_def FdmBase_def)

lemma FdmBase_unit_grid:
  "FdmBase (GBM_obj (GBM 0 1 0 1 1)) 1
     = Inr \<lparr>sde_F = GBM_obj (GBM 0 1 0 1 1), dtSqrt_F = 1, NT_F = 1, x_F = [0, 1], k_F = 1\<rparr>"
proof -
  have "grid_loop exact_arith 1 2 1 [0, 0] = Inr [0, 1]"
    by (subst grid_loop.simps, simp add: vec_at_def exact_arith_def, subst grid_loop.simps, simp)
  then show ?thesis
    by (simp add: FdmBase_def FdmBase_with_def fdiv_with_def sqrt_with_def exact_arith_def
        plus1_def resize0_def numeral_2_eq_2)
qed

text \<open>
  A scheme constructed with expiry 1 and one subdivision has \<open>dtSqrt = 1\<close>. Called with
  \<open>dt = 4\<close> at state 1 and variate 1, for the lognormal model with drift 0 and volatility
  1, it returns \<open>1 + 1 * 1 * 1 = 2\<close>; with \<open>s\<close> the square root of \<open>dt\<close> the formula
  gives 3.
\<close>

theorem MilsteinFdm_advance_counterexample:
  "MilsteinFdm (GBM_obj (GBM 0 1 0 1 1)) 1
     = Inr \<lparr>sde_F = GBM_obj (GBM 0 1 0 1 1), dtSqrt_F = 1, NT_F = 1, x_F = [0, 1], k_F = 1\<rparr>
   \<and> Drift (GBM_obj (GBM 0 1 0 1 1)) 1 0 = Inr 0
   \<and> Diffusion (GBM_obj (GBM 0 1 0 1 1)) 1 0 = Inr 1
   \<and> DiffusionDerivative (GBM_obj (GBM 0 1 0 1 1)) 1 0 = Inr 1
   \<and> MilsteinFdm_advance
        \<lparr>sde_F = GBM_obj (GBM 0 1 0 1 1), dtSqrt_F = 1, NT_F = 1, x_F = [0, 1], k_F = 1\<rparr>
        1 0 4 1 = Inr 2
   \<and> MilsteinFdm_advance
        \<lparr>sde_F = GBM_obj (GBM 0 1 0 1 1), dtSqrt_F = 1, NT_F = 1, x_F = [0, 1], k_F = 1\<rparr>
        1 0 4 1 \<noteq> Inr (1 + 0 * 4 + 1 * sqrt 4 * 1 + 0.5 * 4 * 1 * 1 * (1\<^sup>2 - 1))"
  by (simp add: MilsteinFdm_FdmBase FdmBase_unit_grid MilsteinFdm_advance_def
      GBM_Drift_def GBM_Diffusion_def GBM_DiffusionDerivative_def)

theorem MilsteinFdm_advance_formula_witness:
  "Drift (GBM_obj (GBM 0 1 0 1 1)) 1 0 = Inr 0
   \<and> Diffusion (GBM_obj (GBM 0 1 0 1 1)) 1 0 = Inr 1
   \<and> DiffusionDerivative (GBM_obj (GBM 0 1 0 1 1)) 1 0 = Inr 1
   \<and> MilsteinFdm (GBM_obj (GBM 0 1 0 1 1)) 1
     = Inr \<lparr>sde_F = GBM_obj (GBM 0 1 0 1 1), dtSqrt_F = 1, NT_F = 1, x_F = [0, 1], k_F = 1\<rparr>
   \<and> EulerFdm_advance
        \<lparr>sde_F = GBM_obj (GBM 0 1 0 1 1), dtSqrt_F = 1, NT_F = 1, x_F = [0, 1], k_F = 1\<rparr>
        1 0 4 2 = Inr 3
   \<and> MilsteinFdm_advance
        \<lparr>sde_F = GBM_obj (GBM 0 1 0 1 1), dtSqrt_F = 1, NT_F = 1, x_F = [0, 1], k_F = 1\<rparr>
        1 0 4 2 = Inr 9
   \<and> MilsteinFdm_advance
        \<lparr>sde_F = GBM_obj (GBM 0 1 0 1 1), dtSqrt_F = 1, NT_F = 1, x_F = [0, 1], k_F = 1\<rparr>
        1 0 1 2 = Inr (9 / 2)"
proof -
  let ?f = "\<lparr>sde_F = GBM_obj (GBM 0 1 0 1 1), dtSqrt_F = 1, NT_F = 1, x_F = [0, 1], k_F = 1\<rparr>"
  have a: "Drift (sde_F ?f) 1 0 = Inr 0"
    and b: "Diffusion (sde_F ?f) 1 0 = Inr 1"
    and b': "DiffusionDerivative (sde_F ?f) 1 0 = Inr 1"
    by (simp_all add: GBM_Drift_def GBM_Diffusion_def GBM_DiffusionDerivative_def)
  have c: "MilsteinFdm (GBM_obj (GBM 0 1 0 1 1)) 1 = Inr ?f"
    by (simp add: MilsteinFdm_FdmBase FdmBase_unit_grid)
  note T = MilsteinFdm_advance_formula [OF a b b']
  from T [of 4 2] have e: "EulerFdm_advance ?f 1 0 4 2 = Inr 3"
    and m: "MilsteinFdm_advance ?f 1 0 4 2 = Inr 9" by simp_all
  from T [of 4 2 "GBM_obj (GBM 0 1 0 1 1)" 1] c
  have k: "MilsteinFdm_advance ?f 1 0 1 2 = Inr (9 / 2)" by simp
  from a b b' c e m k show ?thesis by simp
qed

theorem ExactFdm_advance_formula_witness:
  "(0::real) \<le> 0 + 1
   \<and> ExactFdm (GBM_obj (GBM 0 1 0 1 1)) 1 1 1 (1 / 2)
       = Inr \<lparr>sde_F = GBM_obj (GBM 0 1 0 1 1), dtSqrt_F = 1, NT_F = 1, x_F = [0, 1], k_F = 1,
              S0_X = 1, sig_X = 1, mu_X = 1 / 2\<rparr>
   \<and> ExactFdm_advance
        \<lparr>sde_F = GBM_obj (GBM 0 1 0 1 1), dtSqrt_F = 1, NT_F = 1, x_F = [0, 1], k_F = 1,
         S0_X = 1, sig_X = 1, mu_X = 1 / 2\<rparr> 5 0 1 2 = Inr (exp 2)
   \<and> ExactFdm_advance
        \<lparr>sde_F = GBM_obj (GBM 0 1 0 1 1), dtSqrt_F = 1, NT_F = 1, x_F = [0, 1], k_F = 1,
         S0_X = 1, sig_X = 1, mu_X = 1 / 2\<rparr> 7 0 1 2 = Inr (exp 2)"
proof -
  let ?f = "\<lparr>sde_F = GBM_obj (GBM 0 1 0 1 1), dtSqrt_F = 1, NT_F = 1, x_F = [0, 1], k_F = 1,
         S0_X = 1, sig_X = 1, mu_X = 1 / 2\<rparr>"
  have c: "ExactFdm (GBM_obj (GBM 0 1 0 1 1)) 1 1 1 (1 / 2) = Inr ?f"
    by (simp add: ExactFdm_FdmBase FdmBase_unit_grid)
  have h: "(0::real) \<le> 0 + 1" by simp
  from ExactFdm_advance_formula [of ?f 5 0 1 2, THEN conjunct2, THEN conjunct1, THEN mp, OF h]
  have five: "ExactFdm_advance ?f 5 0 1 2 = Inr (exp 2)" by simp
  from ExactFdm_advance_formula [of ?f 7 0 1 2 5, THEN conjunct1] five
  have seven: "ExactFdm_advance ?f 7 0 1 2 = Inr (exp 2)" by simp
  from c five seven show ?thesis by simp
qed

subsection \<open>The grid\<close>

lemma grid_loop_spec:
  "1 \<le> n \<Longrightarrow> n \<le> NT1 \<Longrightarrow> length xs = nat NT1 \<Longrightarrow>
   \<exists>xs'. grid_loop A kk NT1 n xs = Inr xs' \<and> length xs' = nat NT1
         \<and> (\<forall>i < nat n. xs' ! i = xs ! i)
         \<and> (\<forall>i. nat n \<le> i \<and> i < nat NT1 \<longrightarrow> xs' ! i = d_add A (xs' ! (i - 1)) kk)"
proof (induction A kk NT1 n xs rule: grid_loop.induct)
  case (1 A kk NT1 n xs)
  show ?case
  proof (cases "n < NT1")
    case False
    with "1.prems" have "n = NT1" by simp
    with "1.prems" show ?thesis by (subst grid_loop.simps) simp
  next
    case True
    let ?v = "xs ! nat (n - 1)"
    let ?xs1 = "xs[nat n := d_add A ?v kk]"
    from True "1.prems" have in1: "nat (n - 1) < length xs" and in2: "nat n < length xs"
      by simp_all
    have at: "vec_at xs (nat (n - 1)) = Inr ?v" using in1 by (simp add: vec_at_def)
    have "\<exists>xs'. grid_loop A kk NT1 (n + 1) ?xs1 = Inr xs' \<and> length xs' = nat NT1
         \<and> (\<forall>i < nat (n + 1). xs' ! i = ?xs1 ! i)
         \<and> (\<forall>i. nat (n + 1) \<le> i \<and> i < nat NT1 \<longrightarrow> xs' ! i = d_add A (xs' ! (i - 1)) kk)"
      using "1.IH" [OF True at in2] True "1.prems" by simp
    then obtain xs' where loop: "grid_loop A kk NT1 (n + 1) ?xs1 = Inr xs'"
      and len: "length xs' = nat NT1"
      and low: "\<forall>i < nat (n + 1). xs' ! i = ?xs1 ! i"
      and high: "\<forall>i. nat (n + 1) \<le> i \<and> i < nat NT1 \<longrightarrow> xs' ! i = d_add A (xs' ! (i - 1)) kk"
      by blast
    have low': "\<forall>i < nat n. xs' ! i = xs ! i"
    proof (intro allI impI)
      fix i assume i: "i < nat n"
      then have "i < nat (n + 1)" by linarith
      with low have "xs' ! i = ?xs1 ! i" by blast
      with i show "xs' ! i = xs ! i" by simp
    qed
    have pred: "nat (n - 1) = nat n - 1" by linarith
    have "nat n < nat (n + 1)" using "1.prems"(1) by linarith
    with low have "xs' ! nat n = ?xs1 ! nat n" by blast
    then have "xs' ! nat n = d_add A ?v kk" using in2 by simp
    moreover have "xs' ! (nat n - 1) = ?v"
      using low' "1.prems"(1) pred by simp
    ultimately have atn: "xs' ! nat n = d_add A (xs' ! (nat n - 1)) kk" by simp
    have high': "\<forall>i. nat n \<le> i \<and> i < nat NT1 \<longrightarrow> xs' ! i = d_add A (xs' ! (i - 1)) kk"
    proof (intro allI impI)
      fix i assume i: "nat n \<le> i \<and> i < nat NT1"
      show "xs' ! i = d_add A (xs' ! (i - 1)) kk"
      proof (cases "i = nat n")
        case True
        with atn show ?thesis by simp
      next
        case False
        with i "1.prems"(1) have "nat (n + 1) \<le> i \<and> i < nat NT1" by linarith
        with high show ?thesis by blast
      qed
    qed
    show ?thesis
      using True at in2 loop len low' high' by (subst grid_loop.simps) simp
  qed
qed

text \<open>
  Whatever the three operations are, as long as the quotient \<open>T / N\<close> they give is not
  negative: the constructor succeeds, the grid has \<open>N + 1\<close> points, the first is 0, and
  each later point is the sum, as the operations give it, of the point before it and the
  step.
\<close>

lemma FdmBase_with_grid:
  assumes N1: "1 \<le> N" and N2: "N < 2147483647"
    and k: "0 \<le> d_div A (Expiry sde) (real_of_int N)"
  shows "\<exists>xs. FdmBase_with A sde N =
                Inr \<lparr>sde_F = sde, dtSqrt_F = d_sqrt A (d_div A (Expiry sde) (real_of_int N)),
                     NT_F = N, x_F = xs, k_F = d_div A (Expiry sde) (real_of_int N)\<rparr>
           \<and> length xs = nat N + 1 \<and> xs ! 0 = 0
           \<and> (\<forall>n < nat N. xs ! (n + 1) = d_add A (xs ! n) (d_div A (Expiry sde) (real_of_int N)))"
proof -
  let ?k = "d_div A (Expiry sde) (real_of_int N)"
  let ?xs = "replicate (nat (N + 1)) (0::real)"
  have "\<exists>xs'. grid_loop A ?k (N + 1) 1 (?xs[0 := 0]) = Inr xs' \<and> length xs' = nat (N + 1)
         \<and> (\<forall>i < nat 1. xs' ! i = (?xs[0 := 0]) ! i)
         \<and> (\<forall>i. nat 1 \<le> i \<and> i < nat (N + 1) \<longrightarrow> xs' ! i = d_add A (xs' ! (i - 1)) ?k)"
  proof (rule grid_loop_spec)
    show "(1::int) \<le> 1" by simp
    show "1 \<le> N + 1" using N1 by simp
    show "length (?xs[0 := 0]) = nat (N + 1)" by simp
  qed
  then obtain xs' where loop: "grid_loop A ?k (N + 1) 1 (?xs[0 := 0]) = Inr xs'"
    and len': "length xs' = nat (N + 1)"
    and low: "\<forall>i < nat 1. xs' ! i = (?xs[0 := 0]) ! i"
    and high: "\<forall>i. nat 1 \<le> i \<and> i < nat (N + 1) \<longrightarrow> xs' ! i = d_add A (xs' ! (i - 1)) ?k"
    by blast
  have ne: "?xs \<noteq> []" using N1 by simp
  have ctor: "FdmBase_with A sde N =
                Inr \<lparr>sde_F = sde, dtSqrt_F = d_sqrt A ?k, NT_F = N, x_F = xs', k_F = ?k\<rparr>"
    using N1 N2 k ne loop
    by (simp add: FdmBase_with_def fdiv_with_def sqrt_with_def plus1_def resize0_def)
  have len: "length xs' = nat N + 1" using len' N1 by simp
  have zero: "xs' ! 0 = 0" using low N1 by simp
  have steps: "\<forall>n < nat N. xs' ! (n + 1) = d_add A (xs' ! n) ?k"
  proof (intro allI impI)
    fix n assume n: "n < nat N"
    with N1 have "nat 1 \<le> n + 1 \<and> n + 1 < nat (N + 1)" by simp
    with high have "xs' ! (n + 1) = d_add A (xs' ! (n + 1 - 1)) ?k" by blast
    then show "xs' ! (n + 1) = d_add A (xs' ! n) ?k" by simp
  qed
  from ctor len zero steps show ?thesis by (intro exI [where x = xs']) simp
qed

text \<open>With the operations of the real numbers the \<open>n\<close>-th point is \<open>n * k\<close>.\<close>

lemma exact_grid_values:
  "xs ! 0 = 0 \<Longrightarrow> \<forall>n < m. xs ! (n + 1) = xs ! n + kk \<Longrightarrow> i \<le> m \<Longrightarrow> xs ! i = real i * kk"
proof (induction i)
  case 0
  then show ?case by simp
next
  case (Suc i)
  then have "xs ! (i + 1) = xs ! i + kk" and "xs ! i = real i * kk" by simp_all
  then show ?case by (simp add: distrib_right)
qed

subsection \<open>Rounding to a double\<close>

text \<open>
  The double nearest to \<open>a\<close>, computed from an exponent \<open>j\<close> that brings \<open>a\<close> into the
  range of the significands.
\<close>

lemma binary64_eval:
  assumes lo: "2 ^ 52 \<le> a * 2 ^ j" and hi: "a * 2 ^ j < 2 ^ 53"
  shows "binary64 a = of_int (rne (a * 2 ^ j)) / 2 ^ j"
proof -
  have pos: "0 < a * 2 ^ j" using lo by (rule less_le_trans [rotated]) simp
  then have a: "0 < a" by (simp add: zero_less_mult_iff)
  have lg: "log 2 (a * 2 ^ j) = log 2 a + real j"
    using a by (simp add: log_mult log_nat_power)
  have "52 \<le> log 2 (a * 2 ^ j)"
    using lo pos by (subst le_log_iff) (simp_all add: powr_realpow [symmetric])
  moreover have "log 2 (a * 2 ^ j) < 53"
    using hi pos by (subst log_less_iff) (simp_all add: powr_realpow [symmetric])
  ultimately have "\<lfloor>log 2 a\<rfloor> = 52 - int j"
    unfolding lg by (intro floor_unique) simp_all
  then have e: "\<lfloor>log 2 \<bar>a\<bar>\<rfloor> - 52 = - int j" using a by simp
  have p: "(2::real) powi (- int j) = 1 / 2 ^ j"
    by (simp add: power_int_minus field_simps)
  show ?thesis using a unfolding binary64_def e Let_def p by simp
qed

text \<open>Rounding moves a positive number by at most \<open>2^(-53)\<close> of it.\<close>

lemma rne_close: "\<bar>of_int (rne q) - q\<bar> \<le> 1 / 2"
  by (auto simp: rne_def Let_def)

lemma binary64_close:
  assumes y: "0 < y"
  shows "\<bar>binary64 y - y\<bar> \<le> y / 2 ^ 53"
proof -
  define e where "e = \<lfloor>log 2 y\<rfloor> - 52"
  define p where "p = (2::real) powi e"
  have p: "0 < p" by (simp add: p_def)
  have "of_int \<lfloor>log 2 y\<rfloor> \<le> log 2 y" by simp
  then have "2 powr of_int \<lfloor>log 2 y\<rfloor> \<le> 2 powr log 2 y" by simp
  also have "\<dots> = y" using y by simp
  finally have "(2::real) powi \<lfloor>log 2 y\<rfloor> \<le> y" by (simp add: powr_real_of_int')
  moreover have "\<lfloor>log 2 y\<rfloor> = e + 52" by (simp add: e_def)
  ultimately have "(2::real) powi (e + 52) \<le> y" by simp
  then have lo: "p * 2 ^ 52 \<le> y" by (simp add: power_int_add p_def)
  have b: "binary64 y = of_int (rne (y / p)) * p"
    using y by (simp add: binary64_def Let_def e_def p_def)
  have "binary64 y - y = (of_int (rne (y / p)) - y / p) * p"
    using p by (simp add: b left_diff_distrib)
  then have "\<bar>binary64 y - y\<bar> = \<bar>of_int (rne (y / p)) - y / p\<bar> * p"
    using p by (simp add: abs_mult)
  also have "\<dots> \<le> 1 / 2 * p"
    using p rne_close [of "y / p"] by (intro mult_right_mono) simp_all
  also have "\<dots> \<le> y / 2 ^ 53" using lo by simp
  finally show ?thesis .
qed

lemma binary64_pos:
  assumes y: "0 < y"
  shows "0 < binary64 y"
proof -
  have "y / 2 ^ 53 < y" using y by (simp add: field_simps)
  with binary64_close [OF y] show ?thesis by linarith
qed

text \<open>
  A point that is at most \<open>2 * n\<close> steps from 0, with \<open>n\<close> below \<open>2^31\<close>, is below
  the rounded sum of it and the step, and the rounded sum is at most \<open>2 * (n + 1)\<close> steps
  from 0. So the points of the grid increase.
\<close>

lemma binary64_add_step:
  assumes k: "0 < kk" and x0: "0 \<le> x" and xn: "x \<le> 2 * real n * kk" and n: "n < 2147483647"
  shows "x < binary64 (x + kk) \<and> binary64 (x + kk) \<le> 2 * real (Suc n) * kk"
proof -
  let ?y = "x + kk"
  have y: "0 < ?y" using k x0 by simp
  have "2 * real n + 1 < 2 ^ 53" using n by simp
  then have "(2 * real n + 1) * kk < 2 ^ 53 * kk" using k by (intro mult_strict_right_mono)
  moreover have "?y \<le> (2 * real n + 1) * kk" using xn by (simp add: distrib_right)
  ultimately have "?y < 2 ^ 53 * kk" by simp
  then have c: "?y / 2 ^ 53 < kk" by (simp add: field_simps)
  from binary64_close [OF y] have "\<bar>binary64 ?y - ?y\<bar> < kk" using c by simp
  then have "x < binary64 ?y" and "binary64 ?y \<le> ?y + kk" by linarith+
  moreover have "?y + kk \<le> 2 * real (Suc n) * kk" using xn by (simp add: distrib_right)
  ultimately show ?thesis by simp
qed

lemma binary64_grid_increasing:
  assumes k: "0 < kk" and zero: "xs ! 0 = 0"
    and rec: "\<forall>n < m. xs ! (n + 1) = binary64 (xs ! n + kk)"
    and m: "m < 2147483647"
  shows "n < m \<Longrightarrow> 0 \<le> xs ! n \<and> xs ! n \<le> 2 * real n * kk \<and> xs ! n < xs ! (n + 1)"
proof (induction n)
  case 0
  with rec have "xs ! (0 + 1) = binary64 (xs ! 0 + kk)" by blast
  moreover have "(0::real) < binary64 (0 + kk) \<and> binary64 (0 + kk) \<le> 2 * real (Suc 0) * kk"
    using k by (intro binary64_add_step) simp_all
  ultimately show ?case using zero by simp
next
  case (Suc n)
  then have IH: "0 \<le> xs ! n" "xs ! n \<le> 2 * real n * kk" "xs ! n < xs ! (n + 1)" by simp_all
  from Suc.prems m have n: "n < 2147483647" and n': "Suc n < 2147483647" by simp_all
  from Suc.prems rec have r: "xs ! (n + 1) = binary64 (xs ! n + kk)" by simp
  from binary64_add_step [OF k IH(1) IH(2) n] r
  have b: "xs ! Suc n \<le> 2 * real (Suc n) * kk" by simp
  from IH have nn: "0 \<le> xs ! Suc n" by simp
  from Suc.prems rec have r': "xs ! (Suc n + 1) = binary64 (xs ! Suc n + kk)" by blast
  from binary64_add_step [OF k nn b n'] r'
  show ?case using nn b by simp
qed

text \<open>
  C7: for a model with expiry \<open>T\<close> between \<open>2^(-990)\<close> and \<open>2^990\<close>, where no
  quotient or sum of the constructor leaves the range of the normal doubles, and
  \<open>N \<ge> 1\<close> subdivisions (and \<open>N + 1\<close> an int), the constructor of \<open>FdmBase\<close>, which
  the constructor of every scheme runs, succeeds. Its grid has \<open>N + 1\<close> points, the
  first is 0, each later point is the double nearest to the sum of the point before it and
  the step \<open>k\<close>, the double nearest to \<open>T / N\<close>, and each point is below the next. The
  setter of the model leaves the grid, the step and the number of subdivisions as they
  are, and the Euler, the Milstein and the exact scheme are constructed with this grid.
  With the operations of the real numbers in place of those of the doubles the last point
  is \<open>T\<close> and each point is \<open>k = T / N\<close> further than the one before it.
\<close>

theorem FdmBase_grid:
  assumes lo: "1 / 2 ^ 990 \<le> Expiry sde" and hi: "Expiry sde \<le> 2 ^ 990"
    and N1: "1 \<le> N" and N2: "N < 2147483647"
  shows "(\<exists>f. FdmBase_with binary64_arith sde N = Inr f
            \<and> NT_F f = N \<and> k_F f = binary64 (Expiry sde / real_of_int N)
            \<and> length (x_F f) = nat N + 1 \<and> x_F f ! 0 = 0
            \<and> (\<forall>n < nat N. x_F f ! (n + 1) = binary64 (x_F f ! n + k_F f)
                             \<and> x_F f ! n < x_F f ! (n + 1))
            \<and> (\<forall>ssde. x_F (StochasticEquation_set f ssde) = x_F f
                      \<and> k_F (StochasticEquation_set f ssde) = k_F f
                      \<and> NT_F (StochasticEquation_set f ssde) = NT_F f)
            \<and> EulerFdm_with binary64_arith sde N = Inr f
            \<and> MilsteinFdm_with binary64_arith sde N = Inr f
            \<and> (\<exists>fx. ExactFdm_with binary64_arith sde N S0 vol drift = Inr fx
                      \<and> x_F fx = x_F f \<and> k_F fx = k_F f \<and> NT_F fx = NT_F f))
       \<and> (\<exists>f. FdmBase_with exact_arith sde N = Inr f
            \<and> NT_F f = N \<and> k_F f = Expiry sde / real_of_int N
            \<and> length (x_F f) = nat N + 1
            \<and> x_F f ! 0 = 0 \<and> x_F f ! nat N = Expiry sde
            \<and> (\<forall>n < nat N. x_F f ! n < x_F f ! (n + 1)
                             \<and> x_F f ! (n + 1) - x_F f ! n = k_F f))"
proof -
  have "(0::real) < 1 / 2 ^ 990" by simp
  then have T: "0 < Expiry sde" using lo by (rule less_le_trans)
  let ?k = "Expiry sde / real_of_int N"
  from T N1 have kpos: "0 < ?k" by simp
  let ?kA = "binary64 ?k"
  have kA: "d_div binary64_arith (Expiry sde) (real_of_int N) = ?kA"
    by (simp add: binary64_arith_def)
  have kApos: "0 < ?kA" using kpos by (rule binary64_pos)
  then have kA0: "0 \<le> d_div binary64_arith (Expiry sde) (real_of_int N)"
    by (simp add: kA)
  from FdmBase_with_grid [OF N1 N2 kA0]
  obtain xs where ctor: "FdmBase_with binary64_arith sde N =
        Inr \<lparr>sde_F = sde, dtSqrt_F = d_sqrt binary64_arith ?kA, NT_F = N, x_F = xs,
             k_F = ?kA\<rparr>"
    and len: "length xs = nat N + 1" and zero: "xs ! 0 = 0"
    and steps: "\<forall>n < nat N. xs ! (n + 1) = d_add binary64_arith (xs ! n) ?kA"
    unfolding kA by blast
  from steps have rec: "\<forall>n < nat N. xs ! (n + 1) = binary64 (xs ! n + ?kA)"
    by (simp add: binary64_arith_def)
  have m: "nat N < 2147483647" using N2 by simp
  have up: "\<forall>n < nat N. xs ! (n + 1) = binary64 (xs ! n + ?kA) \<and> xs ! n < xs ! (n + 1)"
  proof (intro allI impI)
    fix n assume n: "n < nat N"
    from binary64_grid_increasing [OF kApos zero rec m n] rec n
    show "xs ! (n + 1) = binary64 (xs ! n + ?kA) \<and> xs ! n < xs ! (n + 1)" by blast
  qed
  let ?f = "\<lparr>sde_F = sde, dtSqrt_F = d_sqrt binary64_arith ?kA, NT_F = N, x_F = xs,
            k_F = ?kA\<rparr>"
  have "FdmBase_with binary64_arith sde N = Inr ?f
            \<and> NT_F ?f = N \<and> k_F ?f = ?kA
            \<and> length (x_F ?f) = nat N + 1 \<and> x_F ?f ! 0 = 0
            \<and> (\<forall>n < nat N. x_F ?f ! (n + 1) = binary64 (x_F ?f ! n + k_F ?f)
                             \<and> x_F ?f ! n < x_F ?f ! (n + 1))
            \<and> (\<forall>ssde. x_F (StochasticEquation_set ?f ssde) = x_F ?f
                      \<and> k_F (StochasticEquation_set ?f ssde) = k_F ?f
                      \<and> NT_F (StochasticEquation_set ?f ssde) = NT_F ?f)
            \<and> EulerFdm_with binary64_arith sde N = Inr ?f
            \<and> MilsteinFdm_with binary64_arith sde N = Inr ?f
            \<and> (\<exists>fx. ExactFdm_with binary64_arith sde N S0 vol drift = Inr fx
                      \<and> x_F fx = x_F ?f \<and> k_F fx = k_F ?f \<and> NT_F fx = NT_F ?f)"
    using ctor len zero up
    by (auto simp: StochasticEquation_set_def EulerFdm_with_def MilsteinFdm_with_def
        ExactFdm_with_def)
  then have first: "\<exists>f. FdmBase_with binary64_arith sde N = Inr f
            \<and> NT_F f = N \<and> k_F f = ?kA
            \<and> length (x_F f) = nat N + 1 \<and> x_F f ! 0 = 0
            \<and> (\<forall>n < nat N. x_F f ! (n + 1) = binary64 (x_F f ! n + k_F f)
                             \<and> x_F f ! n < x_F f ! (n + 1))
            \<and> (\<forall>ssde. x_F (StochasticEquation_set f ssde) = x_F f
                      \<and> k_F (StochasticEquation_set f ssde) = k_F f
                      \<and> NT_F (StochasticEquation_set f ssde) = NT_F f)
            \<and> EulerFdm_with binary64_arith sde N = Inr f
            \<and> MilsteinFdm_with binary64_arith sde N = Inr f
            \<and> (\<exists>fx. ExactFdm_with binary64_arith sde N S0 vol drift = Inr fx
                      \<and> x_F fx = x_F f \<and> k_F fx = k_F f \<and> NT_F fx = NT_F f)"
    by (rule exI [where x = ?f])
  have ke: "d_div exact_arith (Expiry sde) (real_of_int N) = ?k"
    by (simp add: exact_arith_def)
  have k0: "0 \<le> d_div exact_arith (Expiry sde) (real_of_int N)"
    using kpos by (simp add: ke)
  from FdmBase_with_grid [OF N1 N2 k0]
  obtain ys where ctor': "FdmBase_with exact_arith sde N =
        Inr \<lparr>sde_F = sde, dtSqrt_F = d_sqrt exact_arith ?k, NT_F = N, x_F = ys, k_F = ?k\<rparr>"
    and len': "length ys = nat N + 1" and zero': "ys ! 0 = 0"
    and steps': "\<forall>n < nat N. ys ! (n + 1) = d_add exact_arith (ys ! n) ?k"
    unfolding ke by blast
  from steps' have rec': "\<forall>n < nat N. ys ! (n + 1) = ys ! n + ?k"
    by (simp add: exact_arith_def)
  have vals: "i \<le> nat N \<Longrightarrow> ys ! i = real i * ?k" for i
    using zero' rec' by (rule exact_grid_values)
  have last: "ys ! nat N = Expiry sde"
  proof -
    have "ys ! nat N = real (nat N) * ?k" by (rule vals) simp
    also have "\<dots> = Expiry sde" using N1 by simp
    finally show ?thesis .
  qed
  have gaps: "\<forall>n < nat N. ys ! n < ys ! (n + 1) \<and> ys ! (n + 1) - ys ! n = ?k"
  proof (intro allI impI)
    fix n assume n: "n < nat N"
    with rec' have "ys ! (n + 1) = ys ! n + ?k" by blast
    with kpos show "ys ! n < ys ! (n + 1) \<and> ys ! (n + 1) - ys ! n = ?k" by simp
  qed
  let ?g = "\<lparr>sde_F = sde, dtSqrt_F = d_sqrt exact_arith ?k, NT_F = N, x_F = ys, k_F = ?k\<rparr>"
  have "FdmBase_with exact_arith sde N = Inr ?g
            \<and> NT_F ?g = N \<and> k_F ?g = Expiry sde / real_of_int N
            \<and> length (x_F ?g) = nat N + 1
            \<and> x_F ?g ! 0 = 0 \<and> x_F ?g ! nat N = Expiry sde
            \<and> (\<forall>n < nat N. x_F ?g ! n < x_F ?g ! (n + 1)
                             \<and> x_F ?g ! (n + 1) - x_F ?g ! n = k_F ?g)"
    using ctor' len' zero' last gaps by simp
  then have second: "\<exists>f. FdmBase_with exact_arith sde N = Inr f
            \<and> NT_F f = N \<and> k_F f = Expiry sde / real_of_int N
            \<and> length (x_F f) = nat N + 1
            \<and> x_F f ! 0 = 0 \<and> x_F f ! nat N = Expiry sde
            \<and> (\<forall>n < nat N. x_F f ! n < x_F f ! (n + 1)
                             \<and> x_F f ! (n + 1) - x_F f ! n = k_F f)"
    by (rule exI [where x = ?g])
  from first second show ?thesis by (rule conjI)
qed

text \<open>The quotient 1 / 10 and the ten sums of the grid of expiry 1 in 10 steps, rounded.\<close>

lemma tenth_div:
  "d_div binary64_arith 1 10 = 3602879701896397 / 36028797018963968"
  unfolding binary64_arith_def arith.simps
  by (subst binary64_eval [where j = 56]) (simp_all add: rne_def)

lemma tenth_add_1:
  "d_add binary64_arith 0 (3602879701896397 / 36028797018963968)
     = 3602879701896397 / 36028797018963968"
  unfolding binary64_arith_def arith.simps
  by (subst binary64_eval [where j = 56]) (simp_all add: rne_def)

lemma tenth_add_2:
  "d_add binary64_arith (3602879701896397 / 36028797018963968)
     (3602879701896397 / 36028797018963968) = 3602879701896397 / 18014398509481984"
  unfolding binary64_arith_def arith.simps
  by (subst binary64_eval [where j = 55]) (simp_all add: rne_def)

lemma tenth_add_3:
  "d_add binary64_arith (3602879701896397 / 18014398509481984)
     (3602879701896397 / 36028797018963968) = 1351079888211149 / 4503599627370496"
  unfolding binary64_arith_def arith.simps
  by (subst binary64_eval [where j = 54]) (simp_all add: rne_def)

lemma tenth_add_4:
  "d_add binary64_arith (1351079888211149 / 4503599627370496)
     (3602879701896397 / 36028797018963968) = 3602879701896397 / 9007199254740992"
  unfolding binary64_arith_def arith.simps
  by (subst binary64_eval [where j = 54]) (simp_all add: rne_def)

lemma tenth_add_5:
  "d_add binary64_arith (3602879701896397 / 9007199254740992)
     (3602879701896397 / 36028797018963968) = 1 / 2"
  unfolding binary64_arith_def arith.simps
  by (subst binary64_eval [where j = 53]) (simp_all add: rne_def)

lemma tenth_add_6:
  "d_add binary64_arith (1 / 2)
     (3602879701896397 / 36028797018963968) = 5404319552844595 / 9007199254740992"
  unfolding binary64_arith_def arith.simps
  by (subst binary64_eval [where j = 53]) (simp_all add: rne_def)

lemma tenth_add_7:
  "d_add binary64_arith (5404319552844595 / 9007199254740992)
     (3602879701896397 / 36028797018963968) = 3152519739159347 / 4503599627370496"
  unfolding binary64_arith_def arith.simps
  by (subst binary64_eval [where j = 53]) (simp_all add: rne_def)

lemma tenth_add_8:
  "d_add binary64_arith (3152519739159347 / 4503599627370496)
     (3602879701896397 / 36028797018963968) = 7205759403792793 / 9007199254740992"
  unfolding binary64_arith_def arith.simps
  by (subst binary64_eval [where j = 53]) (simp_all add: rne_def)

lemma tenth_add_9:
  "d_add binary64_arith (7205759403792793 / 9007199254740992)
     (3602879701896397 / 36028797018963968) = 2026619832316723 / 2251799813685248"
  unfolding binary64_arith_def arith.simps
  by (subst binary64_eval [where j = 53]) (simp_all add: rne_def)

lemma tenth_add_10:
  "d_add binary64_arith (2026619832316723 / 2251799813685248)
     (3602879701896397 / 36028797018963968) = 9007199254740991 / 9007199254740992"
  unfolding binary64_arith_def arith.simps
  by (subst binary64_eval [where j = 53]) (simp_all add: rne_def)

lemmas tenth_add = tenth_add_1 tenth_add_2 tenth_add_3 tenth_add_4 tenth_add_5
  tenth_add_6 tenth_add_7 tenth_add_8 tenth_add_9 tenth_add_10

lemma tenth_grid:
  "grid_loop binary64_arith (3602879701896397 / 36028797018963968) 11 1
     [0, 0, 0, 0, 0, 0, 0, 0, 0, 0, 0]
   = Inr [0, 3602879701896397 / 36028797018963968, 3602879701896397 / 18014398509481984,
          1351079888211149 / 4503599627370496, 3602879701896397 / 9007199254740992, 1 / 2,
          5404319552844595 / 9007199254740992, 3152519739159347 / 4503599627370496,
          7205759403792793 / 9007199254740992, 2026619832316723 / 2251799813685248,
          9007199254740991 / 9007199254740992]"
  apply (subst grid_loop.simps, simp add: vec_at_def tenth_add eval_nat_numeral)
  apply (subst grid_loop.simps, simp add: vec_at_def tenth_add eval_nat_numeral)
  apply (subst grid_loop.simps, simp add: vec_at_def tenth_add eval_nat_numeral)
  apply (subst grid_loop.simps, simp add: vec_at_def tenth_add eval_nat_numeral)
  apply (subst grid_loop.simps, simp add: vec_at_def tenth_add eval_nat_numeral)
  apply (subst grid_loop.simps, simp add: vec_at_def tenth_add eval_nat_numeral)
  apply (subst grid_loop.simps, simp add: vec_at_def tenth_add eval_nat_numeral)
  apply (subst grid_loop.simps, simp add: vec_at_def tenth_add eval_nat_numeral)
  apply (subst grid_loop.simps, simp add: vec_at_def tenth_add eval_nat_numeral)
  apply (subst grid_loop.simps, simp add: vec_at_def tenth_add eval_nat_numeral)
  apply (subst grid_loop.simps, simp)
  done

lemma tenth_FdmBase:
  "FdmBase_with binary64_arith (GBM_obj (GBM 0 1 0 1 1)) 10
     = Inr \<lparr>sde_F = GBM_obj (GBM 0 1 0 1 1),
            dtSqrt_F = d_sqrt binary64_arith (3602879701896397 / 36028797018963968),
            NT_F = 10,
            x_F = [0, 3602879701896397 / 36028797018963968,
                   3602879701896397 / 18014398509481984,
                   1351079888211149 / 4503599627370496, 3602879701896397 / 9007199254740992,
                   1 / 2,
                   5404319552844595 / 9007199254740992, 3152519739159347 / 4503599627370496,
                   7205759403792793 / 9007199254740992, 2026619832316723 / 2251799813685248,
                   9007199254740991 / 9007199254740992],
            k_F = 3602879701896397 / 36028797018963968\<rparr>"
  by (simp add: FdmBase_with_def fdiv_with_def sqrt_with_def plus1_def resize0_def tenth_div
      tenth_grid eval_nat_numeral)

theorem FdmBase_grid_witness:
  "1 / 2 ^ 990 \<le> Expiry (GBM_obj (GBM 0 1 0 1 1))
   \<and> Expiry (GBM_obj (GBM 0 1 0 1 1)) \<le> 2 ^ 990
   \<and> (1::int) \<le> 10 \<and> (10::int) < 2147483647
   \<and> (\<exists>f. FdmBase_with binary64_arith (GBM_obj (GBM 0 1 0 1 1)) 10 = Inr f
          \<and> NT_F f = 10 \<and> k_F f = 3602879701896397 / 36028797018963968
          \<and> length (x_F f) = 11 \<and> x_F f ! 0 = 0
          \<and> x_F f ! 1 = 3602879701896397 / 36028797018963968
          \<and> x_F f ! 2 = 3602879701896397 / 18014398509481984
          \<and> x_F f ! 3 = 1351079888211149 / 4503599627370496
          \<and> x_F f ! 9 < x_F f ! 10)
   \<and> (\<exists>f. FdmBase_with exact_arith (GBM_obj (GBM 0 1 0 1 1)) 10 = Inr f
          \<and> NT_F f = 10 \<and> k_F f = 1 / 10 \<and> length (x_F f) = 11
          \<and> x_F f ! 0 = 0 \<and> x_F f ! 10 = 1
          \<and> x_F f ! 0 < x_F f ! 1 \<and> x_F f ! 1 - x_F f ! 0 = 1 / 10)"
proof -
  let ?sde = "GBM_obj (GBM 0 1 0 1 1)"
  have lo: "1 / 2 ^ 990 \<le> Expiry ?sde" and hi: "Expiry ?sde \<le> 2 ^ 990" by simp_all
  have N1: "(1::int) \<le> 10" and N2: "(10::int) < 2147483647" by simp_all
  note grid = FdmBase_grid [OF lo hi N1 N2]
  have tenth: "binary64 (1 / 10) = 3602879701896397 / 36028797018963968"
    using tenth_div by (simp add: binary64_arith_def)
  have sum: "binary64 (a + b) = d_add binary64_arith a b" for a b
    by (simp add: binary64_arith_def)
  from grid [THEN conjunct1]
  obtain f where f: "FdmBase_with binary64_arith ?sde 10 = Inr f"
    and n: "NT_F f = 10"
    and kf: "k_F f = binary64 (Expiry ?sde / real_of_int 10)"
    and len: "length (x_F f) = nat 10 + 1" and zero: "x_F f ! 0 = 0"
    and steps: "\<forall>n < nat 10. x_F f ! (n + 1) = binary64 (x_F f ! n + k_F f)
                               \<and> x_F f ! n < x_F f ! (n + 1)"
    by blast
  have kf': "k_F f = 3602879701896397 / 36028797018963968"
    using kf by (simp add: tenth)
  have "(0::nat) < nat 10" by simp
  with steps have "x_F f ! (0 + 1) = binary64 (x_F f ! 0 + k_F f)" by blast
  then have one: "x_F f ! 1 = 3602879701896397 / 36028797018963968"
    unfolding zero kf' sum tenth_add_1 by simp
  have "(1::nat) < nat 10" by simp
  with steps have "x_F f ! (1 + 1) = binary64 (x_F f ! 1 + k_F f)" by blast
  then have two: "x_F f ! 2 = 3602879701896397 / 18014398509481984"
    unfolding one kf' sum tenth_add_2 by (simp add: numeral_2_eq_2)
  have "(2::nat) < nat 10" by simp
  with steps have "x_F f ! (2 + 1) = binary64 (x_F f ! 2 + k_F f)" by blast
  then have three: "x_F f ! 3 = 1351079888211149 / 4503599627370496"
    unfolding two kf' sum tenth_add_3 by (simp add: numeral_3_eq_3)
  have "(9::nat) < nat 10" by simp
  with steps have "x_F f ! 9 < x_F f ! (9 + 1)" by blast
  then have up: "x_F f ! 9 < x_F f ! 10" by simp
  have first: "\<exists>f. FdmBase_with binary64_arith ?sde 10 = Inr f
          \<and> NT_F f = 10 \<and> k_F f = 3602879701896397 / 36028797018963968
          \<and> length (x_F f) = 11 \<and> x_F f ! 0 = 0
          \<and> x_F f ! 1 = 3602879701896397 / 36028797018963968
          \<and> x_F f ! 2 = 3602879701896397 / 18014398509481984
          \<and> x_F f ! 3 = 1351079888211149 / 4503599627370496
          \<and> x_F f ! 9 < x_F f ! 10"
    using f n kf' len zero one two three up by (intro exI [where x = f]) simp
  from grid [THEN conjunct2]
  obtain g where g: "FdmBase_with exact_arith ?sde 10 = Inr g"
    and n': "NT_F g = 10" and kg: "k_F g = Expiry ?sde / real_of_int 10"
    and len': "length (x_F g) = nat 10 + 1"
    and zero': "x_F g ! 0 = 0" and last: "x_F g ! nat 10 = Expiry ?sde"
    and gaps: "\<forall>n < nat 10. x_F g ! n < x_F g ! (n + 1) \<and> x_F g ! (n + 1) - x_F g ! n = k_F g"
    by blast
  have "(0::nat) < nat 10" by simp
  with gaps have "x_F g ! 0 < x_F g ! (0 + 1) \<and> x_F g ! (0 + 1) - x_F g ! 0 = k_F g"
    by blast
  then have gap: "x_F g ! 0 < x_F g ! 1" "x_F g ! 1 - x_F g ! 0 = 1 / 10"
    using kg by simp_all
  have second: "\<exists>f. FdmBase_with exact_arith ?sde 10 = Inr f
          \<and> NT_F f = 10 \<and> k_F f = 1 / 10 \<and> length (x_F f) = 11
          \<and> x_F f ! 0 = 0 \<and> x_F f ! 10 = 1
          \<and> x_F f ! 0 < x_F f ! 1 \<and> x_F f ! 1 - x_F f ! 0 = 1 / 10"
    using g n' kg len' zero' last gap by (intro exI [where x = g]) simp
  from lo hi N1 N2 first second show ?thesis by (intro conjI)
qed

text \<open>
  With the doubles' rounding, expiry 1 and 10 subdivisions: the step is the double nearest
  to 1 / 10, which is above 1 / 10; the last point of the grid is \<open>1 - 2^(-53)\<close>, not the
  expiry 1, and the fourth point is further from the third than the step.
\<close>

theorem FdmBase_grid_counterexample:
  "FdmBase_with binary64_arith (GBM_obj (GBM 0 1 0 1 1)) 10
     = Inr \<lparr>sde_F = GBM_obj (GBM 0 1 0 1 1),
            dtSqrt_F = d_sqrt binary64_arith (3602879701896397 / 36028797018963968),
            NT_F = 10,
            x_F = [0, 3602879701896397 / 36028797018963968,
                   3602879701896397 / 18014398509481984,
                   1351079888211149 / 4503599627370496, 3602879701896397 / 9007199254740992,
                   1 / 2,
                   5404319552844595 / 9007199254740992, 3152519739159347 / 4503599627370496,
                   7205759403792793 / 9007199254740992, 2026619832316723 / 2251799813685248,
                   9007199254740991 / 9007199254740992],
            k_F = 3602879701896397 / 36028797018963968\<rparr>
   \<and> 1 / 2 ^ 990 \<le> Expiry (GBM_obj (GBM 0 1 0 1 1))
   \<and> Expiry (GBM_obj (GBM 0 1 0 1 1)) \<le> 2 ^ 990
   \<and> (9007199254740991 / 9007199254740992 :: real) \<noteq> Expiry (GBM_obj (GBM 0 1 0 1 1))
   \<and> (3602879701896397 / 36028797018963968 :: real)
       \<noteq> Expiry (GBM_obj (GBM 0 1 0 1 1)) / real_of_int 10
   \<and> (1351079888211149 / 4503599627370496 - 3602879701896397 / 18014398509481984 :: real)
       \<noteq> 3602879701896397 / 36028797018963968"
  by (simp add: tenth_FdmBase)

subsection \<open>The bridge-corrected barrier pricer\<close>

lemma bridge_scan_step:
  assumes "n < length path" and "1 \<le> n"
    and "(GBM_Diffusion sde (path ! (n - 1)) (real (n - 1) * dt))\<^sup>2 * dt \<noteq> 0"
  shows "bridge_scan sde dt uniform L path n g c =
     (case (if fst (uniform g) \<le> bridge_P sde dt L path n then incr c else Inr c) of
        Inl e \<Rightarrow> Inl e
      | Inr c' \<Rightarrow>
          if L \<le> path ! n \<or> fst (uniform g) \<le> bridge_P sde dt L path n
          then Inr (True, snd (uniform g), c')
          else bridge_scan sde dt uniform L path (n + 1) (snd (uniform g)) c')"
proof -
  obtain u g' where un: "uniform g = (u, g')" by (cases "uniform g")
  show ?thesis
    using assms un
    by (subst bridge_scan.simps)
      (auto simp: vec_at_def fdiv_def bridge_P_def power2_eq_square Let_def incr_def)
qed

lemma bridge_scan_spec:
  assumes div: "\<forall>m. 1 \<le> m \<and> m < length path \<longrightarrow>
      (GBM_Diffusion sde (path ! (m - 1)) (real (m - 1) * dt))\<^sup>2 * dt \<noteq> 0"
  shows "1 \<le> n \<Longrightarrow> c < 2147483647 \<Longrightarrow>
     \<exists>crossed g' c'.
       bridge_scan sde dt uniform L path n (engine_after uniform g0 (n - 1)) c
         = Inr (crossed, g', c')
       \<and> (crossed \<longrightarrow>
            (\<exists>m. n \<le> m \<and> m < length path \<and> crossing sde dt uniform g0 L path m
                 \<and> (\<forall>j. n \<le> j \<and> j < m \<longrightarrow> \<not> crossing sde dt uniform g0 L path j)
                 \<and> g' = engine_after uniform g0 m
                 \<and> c' = (if drawn uniform g0 (m - 1) \<le> bridge_P sde dt L path m
                         then c + 1 else c)))
       \<and> (\<not> crossed \<longrightarrow>
            (\<forall>m. n \<le> m \<and> m < length path \<longrightarrow> \<not> crossing sde dt uniform g0 L path m)
            \<and> g' = engine_after uniform g0 (max (n - 1) (length path - 1)) \<and> c' = c)"
proof (induction "length path - n" arbitrary: n c)
  case 0
  then have "\<not> n < length path" by simp
  then have run: "bridge_scan sde dt uniform L path n (engine_after uniform g0 (n - 1)) c
      = Inr (False, engine_after uniform g0 (n - 1), c)"
    by (subst bridge_scan.simps) simp
  from \<open>\<not> n < length path\<close> have "max (n - 1) (length path - 1) = n - 1" by simp
  with run \<open>\<not> n < length path\<close> show ?case
    by (intro exI [of _ False] exI [of _ "engine_after uniform g0 (n - 1)"] exI [of _ c]) auto
next
  case (Suc d)
  then have lt: "n < length path" and n1: "1 \<le> n" by simp_all
  let ?a = "path ! (n - 1)" and ?b = "path ! n"
  let ?tmp = "GBM_Diffusion sde ?a (real (n - 1) * dt)"
  let ?g = "engine_after uniform g0 (n - 1)"
  have nz: "?tmp * ?tmp * dt \<noteq> 0"
    using div lt n1 by (simp add: power2_eq_square)
  have nz2: "?tmp\<^sup>2 * dt \<noteq> 0"
    using div lt n1 by blast
  have u: "fst (uniform ?g) = drawn uniform g0 (n - 1)" by (simp add: drawn_def)
  have g': "snd (uniform ?g) = engine_after uniform g0 n"
    using n1 by (cases n) simp_all
  let ?P = "bridge_P sde dt L path n" and ?u = "drawn uniform g0 (n - 1)"
  have cr: "crossing sde dt uniform g0 L path n \<longleftrightarrow> L \<le> ?b \<or> ?u \<le> ?P"
    by (simp add: crossing_def)
  show ?case
  proof (cases "crossing sde dt uniform g0 L path n")
    case True
    have run: "bridge_scan sde dt uniform L path n ?g c
        = Inr (True, engine_after uniform g0 n, if ?u \<le> ?P then c + 1 else c)"
      using True Suc.prems(2) u g'
      by (auto simp: bridge_scan_step [OF lt n1 nz2] cr incr_def)
    show ?thesis
    proof -
      have "\<exists>m. n \<le> m \<and> m < length path \<and> crossing sde dt uniform g0 L path m
                 \<and> (\<forall>j. n \<le> j \<and> j < m \<longrightarrow> \<not> crossing sde dt uniform g0 L path j)
                 \<and> engine_after uniform g0 n = engine_after uniform g0 m
                 \<and> (if ?u \<le> ?P then c + 1 else c)
                     = (if drawn uniform g0 (m - 1) \<le> bridge_P sde dt L path m
                        then c + 1 else c)"
        using True lt by (intro exI [of _ n]) auto
      with run show ?thesis
        by (intro exI [of _ True] exI [of _ "engine_after uniform g0 n"]
            exI [of _ "if ?u \<le> ?P then c + 1 else c"]) blast
    qed
  next
    case False
    then have notP: "\<not> ?u \<le> ?P" and notL: "\<not> L \<le> ?b" by (simp_all add: cr)
    have step: "bridge_scan sde dt uniform L path n ?g c
        = bridge_scan sde dt uniform L path (n + 1) (engine_after uniform g0 ((n + 1) - 1)) c"
      using notP notL u g'
      by (simp add: bridge_scan_step [OF lt n1 nz2])
    have d: "d = length path - (n + 1)" using Suc.hyps(2) by simp
    from Suc.hyps(1) [OF d _ Suc.prems(2)]
    obtain crossed g2 c2 where
      run: "bridge_scan sde dt uniform L path (n + 1) (engine_after uniform g0 ((n + 1) - 1)) c
              = Inr (crossed, g2, c2)"
      and yes: "crossed \<longrightarrow>
            (\<exists>m. n + 1 \<le> m \<and> m < length path \<and> crossing sde dt uniform g0 L path m
                 \<and> (\<forall>j. n + 1 \<le> j \<and> j < m \<longrightarrow> \<not> crossing sde dt uniform g0 L path j)
                 \<and> g2 = engine_after uniform g0 m
                 \<and> c2 = (if drawn uniform g0 (m - 1) \<le> bridge_P sde dt L path m
                         then c + 1 else c))"
      and no: "\<not> crossed \<longrightarrow>
            (\<forall>m. n + 1 \<le> m \<and> m < length path \<longrightarrow> \<not> crossing sde dt uniform g0 L path m)
            \<and> g2 = engine_after uniform g0 (max ((n + 1) - 1) (length path - 1)) \<and> c2 = c"
      by auto
    have yes': "crossed \<longrightarrow>
            (\<exists>m. n \<le> m \<and> m < length path \<and> crossing sde dt uniform g0 L path m
                 \<and> (\<forall>j. n \<le> j \<and> j < m \<longrightarrow> \<not> crossing sde dt uniform g0 L path j)
                 \<and> g2 = engine_after uniform g0 m
                 \<and> c2 = (if drawn uniform g0 (m - 1) \<le> bridge_P sde dt L path m
                         then c + 1 else c))"
    proof
      assume crossed
      with yes obtain m where m: "n + 1 \<le> m" "m < length path"
        "crossing sde dt uniform g0 L path m"
        "\<forall>j. n + 1 \<le> j \<and> j < m \<longrightarrow> \<not> crossing sde dt uniform g0 L path j"
        "g2 = engine_after uniform g0 m"
        "c2 = (if drawn uniform g0 (m - 1) \<le> bridge_P sde dt L path m then c + 1 else c)"
        by blast
      have "\<forall>j. n \<le> j \<and> j < m \<longrightarrow> \<not> crossing sde dt uniform g0 L path j"
      proof (intro allI impI)
        fix j assume j: "n \<le> j \<and> j < m"
        show "\<not> crossing sde dt uniform g0 L path j"
        proof (cases "j = n")
          case True
          with False show ?thesis by simp
        next
          case False
          with j m(4) show ?thesis by simp
        qed
      qed
      with m show "\<exists>m. n \<le> m \<and> m < length path \<and> crossing sde dt uniform g0 L path m
                 \<and> (\<forall>j. n \<le> j \<and> j < m \<longrightarrow> \<not> crossing sde dt uniform g0 L path j)
                 \<and> g2 = engine_after uniform g0 m
                 \<and> c2 = (if drawn uniform g0 (m - 1) \<le> bridge_P sde dt L path m
                         then c + 1 else c)"
        by (intro exI [of _ m]) simp
    qed
    have no': "\<not> crossed \<longrightarrow>
            (\<forall>m. n \<le> m \<and> m < length path \<longrightarrow> \<not> crossing sde dt uniform g0 L path m)
            \<and> g2 = engine_after uniform g0 (max (n - 1) (length path - 1)) \<and> c2 = c"
    proof
      assume nc: "\<not> crossed"
      have "\<not> crossing sde dt uniform g0 L path m" if "n \<le> m \<and> m < length path" for m
      proof (cases "m = n")
        case True
        with False show ?thesis by simp
      next
        case False
        with that no nc show ?thesis by simp
      qed
      moreover have "max ((n + 1) - 1) (length path - 1) = max (n - 1) (length path - 1)"
        using lt by simp
      ultimately show "(\<forall>m. n \<le> m \<and> m < length path \<longrightarrow> \<not> crossing sde dt uniform g0 L path m)
            \<and> g2 = engine_after uniform g0 (max (n - 1) (length path - 1)) \<and> c2 = c"
        using no nc by simp
    qed
    from step run yes' no' show ?thesis by (intro exI [of _ crossed] exI [of _ g2] exI [of _ c2]) simp
  qed
qed


lemma bridge_P_ge_one:
  assumes "L \<le> path ! 0" and "path ! 1 < L" and "0 < dt"
  shows "1 \<le> bridge_P sde dt L path 1"
proof -
  let ?d = "(GBM_Diffusion sde (path ! 0) (real (1 - 1) * dt))\<^sup>2 * dt"
  have "0 \<le> (path ! 0 - L) * (L - path ! 1)" using assms by simp
  then have num: "0 \<le> - 2 * (L - path ! 0) * (L - path ! 1)" by (simp add: algebra_simps)
  have den: "0 \<le> ?d" using assms(3) by simp
  have "0 \<le> - 2 * (L - path ! 0) * (L - path ! 1) / ?d"
    using num den by (rule divide_nonneg_nonneg)
  then show ?thesis by (simp add: bridge_P_def)
qed

text \<open>
  C1, as the code has it. The path is not empty, the volatility and \<open>dt\<close> are not 0 and
  no value of the path is 0, so that every bridge probability is defined, and the two
  counters are below \<open>2^31 - 1\<close>. Then \<open>ProcessPath\<close> succeeds and counts the path. It
  scans the pairs \<open>(path[n - 1], path[n])\<close> in the order \<open>n = 1, 2, ...\<close>, with one draw
  of the pricer's own generator for each pair, and stops at the first pair that is a crossing:
  \<open>path[n] \<ge> 170\<close> or \<open>P \<ge> u\<close>, with \<open>P\<close> the bridge probability of the pair and
  \<open>u\<close> its draw. If some pair is a crossing it adds the rebate 0, and the generator has
  made as many draws as the number of the first such pair; if none is, it adds the payoff
  of the last value, after one draw for every pair. The first value \<open>path[0]\<close> is not
  itself compared with the level: with a second value, \<open>dt > 0\<close> and a draw below 1, a
  first value at or above the level makes pair 1 a crossing.
\<close>

theorem BrownianBridgePricer_ProcessPath_crossing:
  assumes ne: "path \<noteq> []"
    and vol: "vol_G (sde_BB s) \<noteq> 0" and dt: "dt_BB s \<noteq> 0" and nz: "\<forall>v \<in> set path. v \<noteq> 0"
    and nsim: "NSim_BB s < 2147483647" and cnt: "counter_BB s < 2147483647"
  shows "\<exists>s'. BrownianBridgePricer_ProcessPath s path = Inr s'
     \<and> NSim_BB s' = NSim_BB s + 1 \<and> price_BB s' = price_BB s
     \<and> ((\<exists>n. 1 \<le> n \<and> n < length path
              \<and> crossing (sde_BB s) (dt_BB s) (dist_BB s) (rng_BB s) 170 path n) \<longrightarrow>
          sum_BB s' = sum_BB s + 0
          \<and> (\<exists>m. 1 \<le> m \<and> m < length path
                 \<and> crossing (sde_BB s) (dt_BB s) (dist_BB s) (rng_BB s) 170 path m
                 \<and> (\<forall>j. 1 \<le> j \<and> j < m \<longrightarrow>
                        \<not> crossing (sde_BB s) (dt_BB s) (dist_BB s) (rng_BB s) 170 path j)
                 \<and> rng_BB s' = engine_after (dist_BB s) (rng_BB s) m))
     \<and> (\<not> (\<exists>n. 1 \<le> n \<and> n < length path
              \<and> crossing (sde_BB s) (dt_BB s) (dist_BB s) (rng_BB s) 170 path n) \<longrightarrow>
          sum_BB s' = sum_BB s + m_payoff s (last path)
          \<and> rng_BB s' = engine_after (dist_BB s) (rng_BB s) (length path - 1))
     \<and> (2 \<le> length path \<and> 0 < dt_BB s \<and> drawn (dist_BB s) (rng_BB s) 0 < 1
          \<and> 170 \<le> path ! 0 \<longrightarrow>
          crossing (sde_BB s) (dt_BB s) (dist_BB s) (rng_BB s) 170 path 1)"
proof -
  let ?cross = "crossing (sde_BB s) (dt_BB s) (dist_BB s) (rng_BB s) 170 path"
  have div: "\<forall>m. 1 \<le> m \<and> m < length path \<longrightarrow>
      (GBM_Diffusion (sde_BB s) (path ! (m - 1)) (real (m - 1) * dt_BB s))\<^sup>2 * dt_BB s \<noteq> 0"
  proof (intro allI impI)
    fix m assume m: "1 \<le> m \<and> m < length path"
    then have "m - 1 < length path" by arith
    then have "path ! (m - 1) \<in> set path" by (rule nth_mem)
    with nz have "path ! (m - 1) \<noteq> 0" by blast
    with vol dt show "(GBM_Diffusion (sde_BB s) (path ! (m - 1)) (real (m - 1) * dt_BB s))\<^sup>2
        * dt_BB s \<noteq> 0"
      by (simp add: GBM_Diffusion_def)
  qed
  from bridge_scan_spec [OF div, of 1 "counter_BB s" "dist_BB s" 170 "rng_BB s"] cnt
  obtain crossed g' c' where
    run: "bridge_scan (sde_BB s) (dt_BB s) (dist_BB s) 170 path 1 (rng_BB s) (counter_BB s)
            = Inr (crossed, g', c')"
    and yes: "crossed \<longrightarrow>
            (\<exists>m. 1 \<le> m \<and> m < length path \<and> ?cross m
                 \<and> (\<forall>j. 1 \<le> j \<and> j < m \<longrightarrow> \<not> ?cross j)
                 \<and> g' = engine_after (dist_BB s) (rng_BB s) m
                 \<and> c' = (if drawn (dist_BB s) (rng_BB s) (m - 1)
                              \<le> bridge_P (sde_BB s) (dt_BB s) 170 path m
                         then counter_BB s + 1 else counter_BB s))"
    and no: "\<not> crossed \<longrightarrow>
            (\<forall>m. 1 \<le> m \<and> m < length path \<longrightarrow> \<not> ?cross m)
            \<and> g' = engine_after (dist_BB s) (rng_BB s) (max (1 - 1) (length path - 1))
            \<and> c' = counter_BB s"
    by auto
  let ?amount = "if crossed then 0 else m_payoff s (last path)"
  let ?s' = "s\<lparr>sum_BB := sum_BB s + ?amount, NSim_BB := NSim_BB s + 1,
               counter_BB := c', rng_BB := g'\<rparr>"
  have res: "BrownianBridgePricer_ProcessPath s path = Inr ?s'"
    using run ne nsim
    by (simp add: BrownianBridgePricer_ProcessPath_def vec_back_def incr_def)
  have iff: "crossed \<longleftrightarrow> (\<exists>n. 1 \<le> n \<and> n < length path \<and> ?cross n)"
    using yes no by blast
  have A: "(\<exists>n. 1 \<le> n \<and> n < length path \<and> ?cross n) \<longrightarrow>
          sum_BB ?s' = sum_BB s + 0
          \<and> (\<exists>m. 1 \<le> m \<and> m < length path \<and> ?cross m
                 \<and> (\<forall>j. 1 \<le> j \<and> j < m \<longrightarrow> \<not> ?cross j)
                 \<and> rng_BB ?s' = engine_after (dist_BB s) (rng_BB s) m)"
  proof
    assume "\<exists>n. 1 \<le> n \<and> n < length path \<and> ?cross n"
    with iff have c: crossed by simp
    with yes obtain m where "1 \<le> m" "m < length path" "?cross m"
      "\<forall>j. 1 \<le> j \<and> j < m \<longrightarrow> \<not> ?cross j" "g' = engine_after (dist_BB s) (rng_BB s) m"
      by blast
    then have "\<exists>m. 1 \<le> m \<and> m < length path \<and> ?cross m
                 \<and> (\<forall>j. 1 \<le> j \<and> j < m \<longrightarrow> \<not> ?cross j)
                 \<and> rng_BB ?s' = engine_after (dist_BB s) (rng_BB s) m"
      by (intro exI [of _ m]) simp
    with c show "sum_BB ?s' = sum_BB s + 0
          \<and> (\<exists>m. 1 \<le> m \<and> m < length path \<and> ?cross m
                 \<and> (\<forall>j. 1 \<le> j \<and> j < m \<longrightarrow> \<not> ?cross j)
                 \<and> rng_BB ?s' = engine_after (dist_BB s) (rng_BB s) m)"
      by simp
  qed
  have B: "\<not> (\<exists>n. 1 \<le> n \<and> n < length path \<and> ?cross n) \<longrightarrow>
          sum_BB ?s' = sum_BB s + m_payoff s (last path)
          \<and> rng_BB ?s' = engine_after (dist_BB s) (rng_BB s) (length path - 1)"
  proof
    assume "\<not> (\<exists>n. 1 \<le> n \<and> n < length path \<and> ?cross n)"
    with iff have c: "\<not> crossed" by simp
    with no have "g' = engine_after (dist_BB s) (rng_BB s) (length path - 1)" by simp
    with c show "sum_BB ?s' = sum_BB s + m_payoff s (last path)
          \<and> rng_BB ?s' = engine_after (dist_BB s) (rng_BB s) (length path - 1)"
      by simp
  qed
  have C: "2 \<le> length path \<and> 0 < dt_BB s \<and> drawn (dist_BB s) (rng_BB s) 0 < 1
          \<and> 170 \<le> path ! 0 \<longrightarrow> ?cross 1"
  proof
    assume h: "2 \<le> length path \<and> 0 < dt_BB s \<and> drawn (dist_BB s) (rng_BB s) 0 < 1
          \<and> 170 \<le> path ! 0"
    show "?cross 1"
    proof (cases "170 \<le> path ! 1")
      case True
      then show ?thesis by (simp add: crossing_def)
    next
      case False
      then have "path ! 1 < 170" by simp
      from bridge_P_ge_one [where L = 170 and path = path and dt = "dt_BB s"
          and sde = "sde_BB s", OF _ this] h
      have "1 \<le> bridge_P (sde_BB s) (dt_BB s) 170 path 1" by simp
      with h show ?thesis by (simp add: crossing_def)
    qed
  qed
  have "BrownianBridgePricer_ProcessPath s path = Inr ?s'
     \<and> NSim_BB ?s' = NSim_BB s + 1 \<and> price_BB ?s' = price_BB s
     \<and> ((\<exists>n. 1 \<le> n \<and> n < length path \<and> ?cross n) \<longrightarrow>
          sum_BB ?s' = sum_BB s + 0
          \<and> (\<exists>m. 1 \<le> m \<and> m < length path \<and> ?cross m
                 \<and> (\<forall>j. 1 \<le> j \<and> j < m \<longrightarrow> \<not> ?cross j)
                 \<and> rng_BB ?s' = engine_after (dist_BB s) (rng_BB s) m))
     \<and> (\<not> (\<exists>n. 1 \<le> n \<and> n < length path \<and> ?cross n) \<longrightarrow>
          sum_BB ?s' = sum_BB s + m_payoff s (last path)
          \<and> rng_BB ?s' = engine_after (dist_BB s) (rng_BB s) (length path - 1))
     \<and> (2 \<le> length path \<and> 0 < dt_BB s \<and> drawn (dist_BB s) (rng_BB s) 0 < 1
          \<and> 170 \<le> path ! 0 \<longrightarrow> ?cross 1)"
    apply (intro conjI)
         apply (rule res)
        apply simp
       apply simp
      apply (rule A)
     apply (rule B)
    apply (rule C)
    done
  then show ?thesis by (rule exI [where x = ?s'])
qed


theorem BrownianBridgePricer_ProcessPath_crossing_witness:
  "[100, 120] \<noteq> ([]::real list)
   \<and> vol_G (GBM 0 (3/10) 0 100 1) \<noteq> 0 \<and> (1/4::real) \<noteq> 0 \<and> (0::real) \<notin> set [100, 120]
   \<and> crossing (GBM 0 (3/10) 0 100 1) (1/4) (\<lambda>g. (0, Suc g)) (0::nat) 170 [100, 120] 1
   \<and> (\<exists>s'. BrownianBridgePricer_ProcessPath
              (BrownianBridgePricer (\<lambda>v. v) (\<lambda>u. 1) (GBM 0 (3/10) 0 100 1) (1/4) (0::nat)
                 (\<lambda>g. (0, Suc g))) [100, 120] = Inr s'
          \<and> NSim_BB s' = 1 \<and> sum_BB s' = 0 \<and> rng_BB s' = Suc 0)"
proof -
  let ?s = "BrownianBridgePricer (\<lambda>v. v) (\<lambda>u. 1) (GBM 0 (3/10) 0 100 1) (1/4) (0::nat)
                 (\<lambda>g. (0, Suc g))"
  have h1: "[100, 120] \<noteq> ([]::real list)" by simp
  have h2: "vol_G (sde_BB ?s) \<noteq> 0" by (simp add: BrownianBridgePricer_def GBM_def)
  have h3: "dt_BB ?s \<noteq> 0" by (simp add: BrownianBridgePricer_def)
  have h4: "\<forall>v \<in> set [100, 120::real]. v \<noteq> 0" by simp
  have h5: "NSim_BB ?s < 2147483647" and h6: "counter_BB ?s < 2147483647"
    by (simp_all add: BrownianBridgePricer_def)
  have c: "crossing (GBM 0 (3/10) 0 100 1) (1/4) (\<lambda>g. (0, Suc g)) (0::nat) 170 [100, 120] 1"
    by (simp add: crossing_def drawn_def bridge_P_def)
  have sel: "sde_BB ?s = GBM 0 (3/10) 0 100 1" "dt_BB ?s = 1/4" "dist_BB ?s = (\<lambda>g. (0, Suc g))"
    "rng_BB ?s = 0" "sum_BB ?s = 0" "NSim_BB ?s = 0"
    by (simp_all add: BrownianBridgePricer_def)
  from BrownianBridgePricer_ProcessPath_crossing [OF h1 h2 h3 h4 h5 h6]
  obtain s' where run: "BrownianBridgePricer_ProcessPath ?s [100, 120] = Inr s'"
    and n: "NSim_BB s' = NSim_BB ?s + 1"
    and yes: "(\<exists>n. 1 \<le> n \<and> n < length [100, 120::real]
              \<and> crossing (sde_BB ?s) (dt_BB ?s) (dist_BB ?s) (rng_BB ?s) 170 [100, 120] n) \<longrightarrow>
          sum_BB s' = sum_BB ?s + 0
          \<and> (\<exists>m. 1 \<le> m \<and> m < length [100, 120::real]
                 \<and> crossing (sde_BB ?s) (dt_BB ?s) (dist_BB ?s) (rng_BB ?s) 170 [100, 120] m
                 \<and> (\<forall>j. 1 \<le> j \<and> j < m \<longrightarrow>
                        \<not> crossing (sde_BB ?s) (dt_BB ?s) (dist_BB ?s) (rng_BB ?s) 170 [100, 120] j)
                 \<and> rng_BB s' = engine_after (dist_BB ?s) (rng_BB ?s) m)"
    by blast
  have ex: "\<exists>n. 1 \<le> n \<and> n < length [100, 120::real]
              \<and> crossing (sde_BB ?s) (dt_BB ?s) (dist_BB ?s) (rng_BB ?s) 170 [100, 120] n"
    unfolding sel using c by (intro exI [of _ 1]) simp
  from yes ex obtain m where sum: "sum_BB s' = sum_BB ?s + 0"
    and m: "1 \<le> m" "m < length [100, 120::real]"
    and g: "rng_BB s' = engine_after (dist_BB ?s) (rng_BB ?s) m"
    by blast
  from m have "m = 1" by simp
  with g have "rng_BB s' = Suc 0" by (simp add: sel)
  with run n sum have "\<exists>s'. BrownianBridgePricer_ProcessPath ?s [100, 120] = Inr s'
          \<and> NSim_BB s' = 1 \<and> sum_BB s' = 0 \<and> rng_BB s' = Suc 0"
    by (intro exI [of _ s']) (simp add: sel)
  with h1 c show ?thesis by (simp add: GBM_def)
qed

text \<open>
  The path of the one value 200 has a value at or above the level 170 and no pair: the loop
  does not run, no crossing is recorded, and the payoff of 200 is added, not the rebate.
  And on the path 100, 120, 130 with every draw 0 the first pair is a crossing, the scan
  stops there and the generator has made one draw, not one for each of the two pairs.
\<close>

theorem BrownianBridgePricer_ProcessPath_counterexample:
  "(170::real) \<le> [200] ! 0
   \<and> BrownianBridgePricer_ProcessPath
        (BrownianBridgePricer (\<lambda>v. v) (\<lambda>u. 1) (GBM 0 (3/10) 0 200 1) (1/4) (0::nat)
           (\<lambda>g. (1/2, Suc g))) [200]
      = Inr \<lparr>m_payoff = \<lambda>v. v, m_discounter = \<lambda>u. 1,
             price_BB = 0, sum_BB = 200, sum2_BB = 0, NSim_BB = 1, dt_BB = 1/4,
             sde_BB = GBM 0 (3/10) 0 200 1, counter_BB = 0, rng_BB = 0,
             dist_BB = \<lambda>g. (1/2, Suc g)\<rparr>
   \<and> BrownianBridgePricer_ProcessPath
        (BrownianBridgePricer (\<lambda>v. v) (\<lambda>u. 1) (GBM 0 (3/10) 0 100 1) (1/4) (0::nat)
           (\<lambda>g. (0, Suc g))) [100, 120, 130]
      = Inr \<lparr>m_payoff = \<lambda>v. v, m_discounter = \<lambda>u. 1,
             price_BB = 0, sum_BB = 0, sum2_BB = 0, NSim_BB = 1, dt_BB = 1/4,
             sde_BB = GBM 0 (3/10) 0 100 1, counter_BB = 1, rng_BB = Suc 0,
             dist_BB = \<lambda>g. (0, Suc g)\<rparr>
   \<and> engine_after (\<lambda>g. (0, Suc g)) (0::nat) (length [100, 120, 130::real] - 1) = Suc (Suc 0)"
proof -
  have one: "bridge_scan (GBM 0 (3/10) 0 200 1) (1/4) (\<lambda>g. (1/2, Suc g)) 170 [200] (Suc 0)
          (0::nat) 0 = Inr (False, 0, 0)"
    by (subst bridge_scan.simps) simp
  have three: "bridge_scan (GBM 0 (3/10) 0 100 1) (1/4) (\<lambda>g. (0, Suc g)) 170 [100, 120, 130]
          (Suc 0) (0::nat) 0 = Inr (True, Suc 0, 1)"
    by (subst bridge_scan.simps)
      (simp add: vec_at_def fdiv_def GBM_Diffusion_def GBM_def incr_def)
  have two: "engine_after (\<lambda>g. (0, Suc g)) (0::nat) (length [100, 120, 130::real] - 1)
      = Suc (Suc 0)"
    by (simp add: numeral_2_eq_2)
  from one three two show ?thesis
    by (simp add: BrownianBridgePricer_ProcessPath_def BrownianBridgePricer_def vec_back_def
        incr_def)
qed

subsection \<open>The mediator\<close>

lemma engine_after_add:
  "engine_after draw (engine_after draw g a) b = engine_after draw g (a + b)"
  by (induction b) simp_all

lemma drawn_add: "drawn draw (engine_after draw g a) b = drawn draw g (a + b)"
  by (simp add: drawn_def engine_after_add)

lemma paths_of_append: "paths_of (es @ fs) = paths_of es @ paths_of fs"
  by (induction es rule: paths_of.induct) simp_all

lemma path_loop_spec:
  assumes grid: "len - 1 \<le> length (x_F fdm)"
  shows "1 \<le> n \<Longrightarrow> n \<le> len \<Longrightarrow> length res = len \<Longrightarrow>
     \<exists>res'. path_loop advance GenerateRn fdm n (res ! (n - 1)) res
               (engine_after GenerateRn g (n - 1))
             = Inr (res', engine_after GenerateRn g (len - 1))
       \<and> length res' = len
       \<and> (\<forall>j < n. res' ! j = res ! j)
       \<and> (\<forall>j. n \<le> j \<and> j < len \<longrightarrow>
             res' ! j = advance fdm (res' ! (j - 1)) (x_F fdm ! (j - 1)) (k_F fdm)
                          (drawn GenerateRn g (j - 1)))"
proof (induction "len - n" arbitrary: n res)
  case 0
  then have "n = len" by simp
  with "0.prems" show ?case
    by (subst path_loop.simps) auto
next
  case (Suc d)
  then have lt: "n < length res" and n1: "1 \<le> n" and len: "length res = len" by simp_all
  let ?g = "engine_after GenerateRn g (n - 1)"
  let ?z = "drawn GenerateRn g (n - 1)"
  let ?V = "advance fdm (res ! (n - 1)) (x_F fdm ! (n - 1)) (k_F fdm) ?z"
  let ?res1 = "res[n := ?V]"
  have inx: "n - 1 < length (x_F fdm)" using grid lt n1 len by arith
  have gen: "GenerateRn ?g = (?z, engine_after GenerateRn g n)"
    using n1 by (cases n) (simp_all add: drawn_def)
  have step: "path_loop advance GenerateRn fdm n (res ! (n - 1)) res ?g
      = path_loop advance GenerateRn fdm (n + 1) ?V ?res1 (engine_after GenerateRn g n)"
    using lt inx gen by (subst path_loop.simps) (simp add: vec_at_def Let_def)
  have d: "d = len - (n + 1)" using Suc.hyps(2) by simp
  have n': "1 \<le> n + 1" "n + 1 \<le> len" using lt len by simp_all
  have len1: "length ?res1 = len" using len by simp
  have V: "?res1 ! ((n + 1) - 1) = ?V" using lt by simp
  from Suc.hyps(1) [OF d n' len1]
  obtain res' where run: "path_loop advance GenerateRn fdm (n + 1) (?res1 ! ((n + 1) - 1)) ?res1
               (engine_after GenerateRn g ((n + 1) - 1))
             = Inr (res', engine_after GenerateRn g (len - 1))"
    and len': "length res' = len"
    and keep: "\<forall>j < n + 1. res' ! j = ?res1 ! j"
    and rec: "\<forall>j. n + 1 \<le> j \<and> j < len \<longrightarrow>
             res' ! j = advance fdm (res' ! (j - 1)) (x_F fdm ! (j - 1)) (k_F fdm)
                          (drawn GenerateRn g (j - 1))"
    by blast
  have keep': "\<forall>j < n. res' ! j = res ! j" using keep by simp
  have at_n: "res' ! n = ?V" using keep lt by simp
  have prev: "res' ! (n - 1) = res ! (n - 1)" using keep' n1 by simp
  have rec': "\<forall>j. n \<le> j \<and> j < len \<longrightarrow>
             res' ! j = advance fdm (res' ! (j - 1)) (x_F fdm ! (j - 1)) (k_F fdm)
                          (drawn GenerateRn g (j - 1))"
  proof (intro allI impI)
    fix j assume j: "n \<le> j \<and> j < len"
    show "res' ! j = advance fdm (res' ! (j - 1)) (x_F fdm ! (j - 1)) (k_F fdm)
                          (drawn GenerateRn g (j - 1))"
    proof (cases "j = n")
      case True
      with at_n prev show ?thesis by simp
    next
      case False
      with j rec show ?thesis by simp
    qed
  qed
  have "path_loop advance GenerateRn fdm n (res ! (n - 1)) res ?g
      = Inr (res', engine_after GenerateRn g (len - 1))"
    using step run V by simp
  with len' keep' rec' show ?case by blast
qed


lemma paths_of_Mis [simp]: "paths_of (if c then [Mis i] else []) = []"
  by simp

lemma sim_loop_spec:
  assumes grid: "N \<le> length (x_F fdm)"
  shows "0 \<le> i \<Longrightarrow> i \<le> NS \<Longrightarrow>
     sde_M m = sde \<Longrightarrow> fdm_M m = fdm \<Longrightarrow> NSim_M m = NS \<Longrightarrow> length (res_M m) = N + 1 \<Longrightarrow>
     rng_M m = engine_after GenerateRn g0 (nat i * N) \<Longrightarrow>
     \<exists>m' evs. sim_loop InitialCondition_v advance GenerateRn m i emitted = Inr (m', emitted @ evs)
       \<and> Finish \<notin> set evs \<and> length (paths_of evs) = nat (NS - i)
       \<and> (\<forall>j < nat (NS - i).
             generated_path advance fdm (InitialCondition_v sde)
               (\<lambda>q. drawn GenerateRn g0 ((nat i + j) * N + q)) N (paths_of evs ! j))
       \<and> rng_M m' = engine_after GenerateRn g0 (nat NS * N)
       \<and> sde_M m' = sde \<and> fdm_M m' = fdm \<and> NSim_M m' = NS"
proof (induction "nat (NS - i)" arbitrary: i m emitted)
  case 0
  then have "i = NS" by simp
  with "0.prems" have "sim_loop InitialCondition_v advance GenerateRn m i emitted = Inr (m, emitted @ [])"
    by (subst sim_loop.simps) simp
  with "0.prems" \<open>i = NS\<close> show ?case
    by (intro exI [of _ m] exI [of _ "[]"]) simp
next
  case (Suc d)
  then have lt: "i < NS" and i0: "0 \<le> i" by simp_all
  note m = Suc.prems(3-7)
  let ?g = "rng_M m"
  let ?V = "InitialCondition_v sde"
  let ?res0 = "(res_M m)[0 := ?V]"
  let ?pre = "if i mod 100 = 0 then [Mis i] else []"
  have len0: "length ?res0 = N + 1" using m by simp
  have grid': "(N + 1) - 1 \<le> length (x_F fdm)" using grid by simp
  have V0: "?res0 ! (1 - 1) = ?V" using m by simp
  from path_loop_spec [OF grid', of 1 ?res0 advance GenerateRn ?g] len0
  obtain p where run: "path_loop advance GenerateRn fdm 1 (?res0 ! (1 - 1)) ?res0
               (engine_after GenerateRn ?g (1 - 1))
             = Inr (p, engine_after GenerateRn ?g ((N + 1) - 1))"
    and lenp: "length p = N + 1"
    and keep: "\<forall>j < 1. p ! j = ?res0 ! j"
    and rec: "\<forall>j. 1 \<le> j \<and> j < N + 1 \<longrightarrow>
             p ! j = advance fdm (p ! (j - 1)) (x_F fdm ! (j - 1)) (k_F fdm)
                       (drawn GenerateRn ?g (j - 1))"
    by auto
  have run': "path_loop advance GenerateRn fdm (Suc 0) ?V ?res0 ?g
      = Inr (p, engine_after GenerateRn ?g N)"
    using run V0 by simp
  have p0: "p ! 0 = ?V" using keep V0 by simp
  have dr: "drawn GenerateRn ?g q = drawn GenerateRn g0 (nat i * N + q)" for q
    using m by (simp add: drawn_add)
  have good: "generated_path advance fdm ?V (\<lambda>q. drawn GenerateRn g0 (nat i * N + q)) N p"
    unfolding generated_path_def using lenp p0 rec by (simp add: dr)
  let ?m1 = "m\<lparr>rng_M := engine_after GenerateRn ?g N, res_M := p\<rparr>"
  have ne: "res_M m \<noteq> []" using m by auto
  have step: "sim_loop InitialCondition_v advance GenerateRn m i emitted
      = sim_loop InitialCondition_v advance GenerateRn ?m1 (i + 1)
          ((emitted @ ?pre) @ [PathCompleted p])"
    using lt m ne run' by (subst sim_loop.simps) (simp add: Let_def)
  have d: "d = nat (NS - (i + 1))" using Suc.hyps(2) by simp
  have rng1: "rng_M ?m1 = engine_after GenerateRn g0 (nat (i + 1) * N)"
    using m i0 by (simp add: engine_after_add nat_add_distrib algebra_simps)
  from Suc.hyps(1) [OF d, of ?m1 "(emitted @ ?pre) @ [PathCompleted p]"] lt i0 m lenp rng1
  obtain m' evs where rest: "sim_loop InitialCondition_v advance GenerateRn ?m1 (i + 1)
          ((emitted @ ?pre) @ [PathCompleted p])
        = Inr (m', ((emitted @ ?pre) @ [PathCompleted p]) @ evs)"
    and nofin: "Finish \<notin> set evs"
    and count: "length (paths_of evs) = nat (NS - (i + 1))"
    and goods: "\<forall>j < nat (NS - (i + 1)).
             generated_path advance fdm ?V
               (\<lambda>q. drawn GenerateRn g0 ((nat (i + 1) + j) * N + q)) N (paths_of evs ! j)"
    and fin: "rng_M m' = engine_after GenerateRn g0 (nat NS * N)"
      "sde_M m' = sde" "fdm_M m' = fdm" "NSim_M m' = NS"
    by auto
  let ?evs = "?pre @ [PathCompleted p] @ evs"
  have paths: "paths_of ?evs = p # paths_of evs"
    by (simp add: paths_of_append)
  have total: "sim_loop InitialCondition_v advance GenerateRn m i emitted = Inr (m', emitted @ ?evs)"
    using step rest by simp
  have nofin': "Finish \<notin> set ?evs" using nofin by simp
  have count': "length (paths_of ?evs) = nat (NS - i)"
    using count lt by (simp add: paths)
  have goods': "\<forall>j < nat (NS - i).
             generated_path advance fdm ?V
               (\<lambda>q. drawn GenerateRn g0 ((nat i + j) * N + q)) N (paths_of ?evs ! j)"
  proof (intro allI impI)
    fix j assume j: "j < nat (NS - i)"
    show "generated_path advance fdm ?V
               (\<lambda>q. drawn GenerateRn g0 ((nat i + j) * N + q)) N (paths_of ?evs ! j)"
    proof (cases j)
      case 0
      with good show ?thesis by (simp add: paths)
    next
      case (Suc j')
      with j lt have "j' < nat (NS - (i + 1))" by simp
      with goods have "generated_path advance fdm ?V
               (\<lambda>q. drawn GenerateRn g0 ((nat (i + 1) + j') * N + q)) N (paths_of evs ! j')"
        by blast
      moreover have "nat (i + 1) + j' = nat i + j" using Suc i0 by simp
      ultimately show ?thesis using Suc by (simp add: paths)
    qed
  qed
  from total nofin' count' goods' fin show ?case
    by (intro exI [of _ m'] exI [of _ ?evs]) simp
qed


text \<open>
  C2: a mediator is constructed for \<open>M\<close> paths with a scheme of \<open>N\<close> subdivisions
  whose grid has at least \<open>N\<close> points. Whatever the functions \<open>InitialCondition\<close>,
  \<open>advance\<close> and \<open>GenerateRn\<close> are, \<open>start\<close> returns, and what it emits is a sequence
  of events without a completion event, followed by the one completion event. The
  path-completed events of that sequence are \<open>M\<close>, and the one number \<open>i\<close> (from 0)
  carries the path with entry 0 the model's initial condition and entry \<open>n\<close>
  (\<open>1 \<le> n \<le> N\<close>) equal to \<open>advance\<close> of entry \<open>n - 1\<close>, \<open>x[n - 1]\<close>, \<open>k\<close> and
  the variate of draw number \<open>i * N + n - 1\<close> of the generator: the paths are generated one
  after the other in the order \<open>0, ..., M - 1\<close>, each event carries its whole path, and the
  generator has made \<open>M * N\<close> draws at the end.
\<close>

theorem start_generates_paths_in_order:
  assumes ctor: "MCMediator (sde, fdm, rng) (int M) = Inr m"
    and N: "NT_F fdm = int N" and grid: "N \<le> length (x_F fdm)"
  shows "\<exists>m' evs. start InitialCondition_v advance GenerateRn m = Inr (m', evs @ [Finish])
           \<and> Finish \<notin> set evs
           \<and> length (paths_of evs) = M
           \<and> (\<forall>i < M.
                 generated_path advance fdm (InitialCondition_v sde)
                   (\<lambda>q. drawn GenerateRn rng (i * N + q)) N (paths_of evs ! i))
           \<and> rng_M m' = engine_after GenerateRn rng (M * N)"
proof -
  from ctor N have m: "sde_M m = sde" "fdm_M m = fdm" "NSim_M m = int M"
    "length (res_M m) = N + 1" "rng_M m = engine_after GenerateRn rng (nat 0 * N)"
    by (auto simp: MCMediator_def plus1_def resize_res_def nat_add_distrib
        split: if_splits sum.splits)
  from sim_loop_spec [OF grid _ _ m, of InitialCondition_v advance "[]"]
  obtain m' evs where run: "sim_loop InitialCondition_v advance GenerateRn m 0 [] = Inr (m', [] @ evs)"
    and nofin: "Finish \<notin> set evs"
    and count: "length (paths_of evs) = nat (int M - 0)"
    and goods: "\<forall>j < nat (int M - 0).
             generated_path advance fdm (InitialCondition_v sde)
               (\<lambda>q. drawn GenerateRn rng ((nat 0 + j) * N + q)) N (paths_of evs ! j)"
    and fin: "rng_M m' = engine_after GenerateRn rng (nat (int M) * N)"
    by auto
  have "start InitialCondition_v advance GenerateRn m = Inr (m', evs @ [Finish])"
    using run by (simp add: start_def)
  with nofin count goods fin show ?thesis
    by (intro exI [of _ m'] exI [of _ evs]) simp
qed


lemma start_two_paths:
  "start InitialCondition
     (\<lambda>f xn tn dt z. xn + GBM_Drift (GBM 0 1 0 1 1) xn tn * dt
                        + GBM_Diffusion (GBM 0 1 0 1 1) xn tn * dtSqrt_F f * z)
     (\<lambda>g. (real g, Suc g))
     \<lparr>sde_M = GBM_obj (GBM 0 1 0 1 1),
      fdm_M = \<lparr>sde_F = GBM_obj (GBM 0 1 0 1 1), dtSqrt_F = 1, NT_F = 1, x_F = [0, 1], k_F = 1\<rparr>,
      rng_M = 0::nat, NSim_M = 2, res_M = [0, 0]\<rparr>
   = Inr (\<lparr>sde_M = GBM_obj (GBM 0 1 0 1 1),
           fdm_M = \<lparr>sde_F = GBM_obj (GBM 0 1 0 1 1), dtSqrt_F = 1, NT_F = 1,
                    x_F = [0, 1], k_F = 1\<rparr>,
           rng_M = 2, NSim_M = 2, res_M = [1, 2]\<rparr>,
          [Mis 0, PathCompleted [1, 1], PathCompleted [1, 2], Finish])"
  by (simp add: start_def sim_loop.simps path_loop.simps vec_at_def GBM_Drift_def
      GBM_Diffusion_def Let_def)


theorem start_generates_paths_in_order_witness:
  "FdmBase (GBM_obj (GBM 0 1 0 1 1)) 1
     = Inr \<lparr>sde_F = GBM_obj (GBM 0 1 0 1 1), dtSqrt_F = 1, NT_F = 1, x_F = [0, 1], k_F = 1\<rparr>
   \<and> (\<forall>xn tn dt z.
        EulerFdm_advance
          \<lparr>sde_F = GBM_obj (GBM 0 1 0 1 1), dtSqrt_F = 1, NT_F = 1, x_F = [0, 1], k_F = 1\<rparr>
          xn tn dt z
        = Inr (xn + GBM_Drift (GBM 0 1 0 1 1) xn tn * dt
                  + GBM_Diffusion (GBM 0 1 0 1 1) xn tn * 1 * z))
   \<and> MCMediator
        (GBM_obj (GBM 0 1 0 1 1),
         \<lparr>sde_F = GBM_obj (GBM 0 1 0 1 1), dtSqrt_F = 1, NT_F = 1, x_F = [0, 1], k_F = 1\<rparr>,
         0::nat) (int 2)
     = Inr \<lparr>sde_M = GBM_obj (GBM 0 1 0 1 1),
            fdm_M = \<lparr>sde_F = GBM_obj (GBM 0 1 0 1 1), dtSqrt_F = 1, NT_F = 1,
                     x_F = [0, 1], k_F = 1\<rparr>,
            rng_M = 0::nat, NSim_M = 2, res_M = [0, 0::real]\<rparr>
   \<and> (\<exists>m' evs.
        start InitialCondition
          (\<lambda>f xn tn dt z. xn + GBM_Drift (GBM 0 1 0 1 1) xn tn * dt
                             + GBM_Diffusion (GBM 0 1 0 1 1) xn tn * dtSqrt_F f * z)
          (\<lambda>g. (real g, Suc g))
          \<lparr>sde_M = GBM_obj (GBM 0 1 0 1 1),
           fdm_M = \<lparr>sde_F = GBM_obj (GBM 0 1 0 1 1), dtSqrt_F = 1, NT_F = 1,
                    x_F = [0, 1], k_F = 1\<rparr>,
           rng_M = 0::nat, NSim_M = 2, res_M = [0, 0]\<rparr>
        = Inr (m', evs @ [Finish])
        \<and> evs = [Mis 0, PathCompleted [1, 1], PathCompleted [1, 2]]
        \<and> Finish \<notin> set evs \<and> length (paths_of evs) = 2 \<and> rng_M m' = 2
        \<and> generated_path
             (\<lambda>f xn tn dt z. xn + GBM_Drift (GBM 0 1 0 1 1) xn tn * dt
                                + GBM_Diffusion (GBM 0 1 0 1 1) xn tn * dtSqrt_F f * z)
             \<lparr>sde_F = GBM_obj (GBM 0 1 0 1 1), dtSqrt_F = 1, NT_F = 1, x_F = [0, 1], k_F = 1\<rparr>
             1 (\<lambda>q. real (1 * 1 + q)) 1 [1, 2])"
proof -
  let ?sde = "GBM_obj (GBM 0 1 0 1 1)"
  let ?f = "\<lparr>sde_F = ?sde, dtSqrt_F = 1, NT_F = 1, x_F = [0, 1], k_F = 1\<rparr>"
  let ?adv = "\<lambda>(f::FdmBase) xn tn dt z. xn + GBM_Drift (GBM 0 1 0 1 1) xn tn * dt
                             + GBM_Diffusion (GBM 0 1 0 1 1) xn tn * dtSqrt_F f * z"
  let ?gen = "\<lambda>g::nat. (real g, Suc g)"
  let ?m = "\<lparr>sde_M = ?sde, fdm_M = ?f, rng_M = 0::nat, NSim_M = 2, res_M = [0, 0::real]\<rparr>"
  have ctor: "MCMediator (?sde, ?f, 0::nat) (int 2) = Inr ?m"
    by (simp add: MCMediator_def plus1_def resize_res_def numeral_2_eq_2)
  have N: "NT_F ?f = int 1" by simp
  have grid: "1 \<le> length (x_F ?f)" by simp
  have euler: "\<forall>xn tn dt z. EulerFdm_advance ?f xn tn dt z
        = Inr (xn + GBM_Drift (GBM 0 1 0 1 1) xn tn * dt
                  + GBM_Diffusion (GBM 0 1 0 1 1) xn tn * 1 * z)"
    by (simp add: EulerFdm_advance_def)
  from start_generates_paths_in_order [OF ctor N grid, of InitialCondition ?adv ?gen]
  obtain m' evs where run: "start InitialCondition ?adv ?gen ?m = Inr (m', evs @ [Finish])"
    and nofin: "Finish \<notin> set evs" and count: "length (paths_of evs) = 2"
    and goods: "\<forall>i < 2. generated_path ?adv ?f (InitialCondition ?sde)
                   (\<lambda>q. drawn ?gen 0 (i * 1 + q)) 1 (paths_of evs ! i)"
    and fin: "rng_M m' = engine_after ?gen 0 (2 * 1)"
    by blast
  from run have evs: "evs = [Mis 0, PathCompleted [1, 1], PathCompleted [1, 2]]"
    by (simp add: start_two_paths)
  have dr: "drawn ?gen 0 j = real j" for j
  proof -
    have "engine_after ?gen 0 j = j" by (induction j) simp_all
    then show ?thesis by (simp add: drawn_def)
  qed
  have "(1::nat) < 2" by simp
  from goods [rule_format, OF this]
  have "generated_path ?adv ?f (InitialCondition ?sde)
                   (\<lambda>q. drawn ?gen 0 (1 * 1 + q)) 1 (paths_of evs ! 1)" .
  then have second: "generated_path ?adv ?f 1 (\<lambda>q. real (1 * 1 + q)) 1 [1, 2]"
    by (simp add: evs dr)
  from fin have fin': "rng_M m' = 2" by (simp add: numeral_2_eq_2)
  have "\<exists>m' evs. start InitialCondition ?adv ?gen ?m = Inr (m', evs @ [Finish])
        \<and> evs = [Mis 0, PathCompleted [1, 1], PathCompleted [1, 2]]
        \<and> Finish \<notin> set evs \<and> length (paths_of evs) = 2 \<and> rng_M m' = 2
        \<and> generated_path ?adv ?f 1 (\<lambda>q. real (1 * 1 + q)) 1 [1, 2]"
    using run evs nofin count fin' second by blast
  with FdmBase_unit_grid euler ctor show ?thesis by blast
qed

end
